theory Spec2Isabelle
  imports Complex_Main "HOL-Library.Monad_Syntax"
begin

section \<open>Conventions of the embedding\<close>

text \<open>
  The repository holds three variants of a 2D particle simulation:
  \<^verbatim>\<open>combined.py\<close> (grid-accelerated SPH), \<^verbatim>\<open>main-R1.py\<close> (brute-force SPH with surface
  tension and pairwise collisions) and \<^verbatim>\<open>main-o1.py\<close> (bouncing balls without SPH).

  Python floats are modelled as real numbers: arithmetic is exact, and rounding, overflow
  and NaN are outside the model. Comparisons and branches are those of the source.
  A division whose divisor is not a literal is checked: a zero divisor yields \<open>None\<close>,
  which stands for the degenerate outcome (\<^verbatim>\<open>ZeroDivisionError\<close> on Python floats,
  a non-finite value on numpy floats). An index read outside a list is \<open>None\<close> as well.
  Names are those of the source; where two variants use one name, the definitions of
  \<^verbatim>\<open>main-R1.py\<close> carry the suffix \<open>_R1\<close> and those of \<^verbatim>\<open>main-o1.py\<close> the suffix
  \<open>_o1\<close>. The fields of the particle of \<^verbatim>\<open>main-R1.py\<close> are prefixed with \<open>p_\<close>, those of
  the ball of \<^verbatim>\<open>main-o1.py\<close> with \<open>ball_\<close>.
\<close>

type_synonym vec = "real \<times> real"

definition fdiv :: "real \<Rightarrow> real \<Rightarrow> real option" where
  "fdiv a b = (if b = 0 then None else Some (a / b))"

definition lookup :: "'a list \<Rightarrow> nat \<Rightarrow> 'a option" where
  "lookup xs i = (if i < length xs then Some (xs ! i) else None)"

text \<open>A \<^verbatim>\<open>for x in xs:\<close> loop whose body updates a state and may fail.\<close>

fun for_loop :: "'a list \<Rightarrow> ('a \<Rightarrow> 's \<Rightarrow> 's option) \<Rightarrow> 's \<Rightarrow> 's option" where
  "for_loop [] body s = Some s"
| "for_loop (x # xs) body s = Option.bind (body x s) (for_loop xs body)"

text \<open>A loop \<^verbatim>\<open>for p in ps:\<close> that updates every element in place and may fail.\<close>

fun for_each :: "('a \<Rightarrow> 'a option) \<Rightarrow> 'a list \<Rightarrow> 'a list option" where
  "for_each f [] = Some []"
| "for_each f (x # xs) = do { y \<leftarrow> f x; ys \<leftarrow> for_each f xs; Some (y # ys) }"

text \<open>\<^verbatim>\<open>np.linalg.norm\<close> of a 2-vector and \<^verbatim>\<open>math.hypot\<close>.\<close>

definition hypot :: "real \<Rightarrow> real \<Rightarrow> real" where
  "hypot dx dy = sqrt (dx * dx + dy * dy)"

definition norm2 :: "vec \<Rightarrow> real" where
  "norm2 v = hypot (fst v) (snd v)"

definition vadd :: "vec \<Rightarrow> vec \<Rightarrow> vec" where
  "vadd a b = (fst a + fst b, snd a + snd b)"

definition vsub :: "vec \<Rightarrow> vec \<Rightarrow> vec" where
  "vsub a b = (fst a - fst b, snd a - snd b)"

definition vscale :: "real \<Rightarrow> vec \<Rightarrow> vec" where
  "vscale c a = (c * fst a, c * snd a)"

definition vdiv :: "vec \<Rightarrow> real \<Rightarrow> vec option" where
  "vdiv a c = do { u \<leftarrow> fdiv (fst a) c; v \<leftarrow> fdiv (snd a) c; Some (u, v) }"

section \<open>combined.py\<close>

subsection \<open>Constants and smoothing kernels\<close>

definition PARTICLE_RADIUS :: real where "PARTICLE_RADIUS = 8"
definition GRAVITY :: vec where "GRAVITY = (0, 980)"
definition DAMPING :: real where "DAMPING = 95 / 100"
definition SMOOTHING_RADIUS :: real where "SMOOTHING_RADIUS = 30"
definition PRESSURE_STIFFNESS :: real where "PRESSURE_STIFFNESS = 8 / 100"
definition VISCOSITY :: real where "VISCOSITY = 2 / 100"
definition REST_DENSITY :: real where "REST_DENSITY = 300"
definition TIME_STEP :: real where "TIME_STEP = 16 / 1000"

definition poly6_kernel :: "real \<Rightarrow> real \<Rightarrow> real option" where
  "poly6_kernel r h =
     (if r < h then do { c \<leftarrow> fdiv 315 (64 * pi * h ^ 9); Some (c * (h ^ 2 - r ^ 2) ^ 3) }
      else Some 0)"

definition spiky_gradient :: "real \<Rightarrow> real \<Rightarrow> real option" where
  "spiky_gradient r h =
     (if r < h then do { c \<leftarrow> fdiv (- 45) (pi * h ^ 6); Some (c * (h - r) ^ 2) }
      else Some 0)"

definition viscosity_laplacian :: "real \<Rightarrow> real \<Rightarrow> real option" where
  "viscosity_laplacian r h =
     (if r < h then do { c \<leftarrow> fdiv 45 (pi * h ^ 6); Some (c * (h - r)) }
      else Some 0)"

subsection \<open>Particles and the spatial grid\<close>

record Particle =
  pos :: vec
  vel :: vec
  acc :: vec
  density :: real
  pressure :: real

text \<open>Python's \<^verbatim>\<open>int()\<close> on a float truncates toward zero.\<close>

definition py_int :: "real \<Rightarrow> int" where
  "py_int v = (if 0 \<le> v then \<lfloor>v\<rfloor> else \<lceil>v\<rceil>)"

type_synonym grid = "int \<times> int \<rightharpoonup> nat list"

definition cell_of :: "real \<Rightarrow> vec \<Rightarrow> (int \<times> int) option" where
  "cell_of cell_size p = do {
     a \<leftarrow> fdiv (fst p) cell_size;
     b \<leftarrow> fdiv (snd p) cell_size;
     Some (py_int a, py_int b) }"

definition cell_entries :: "grid \<Rightarrow> int \<times> int \<Rightarrow> nat list" where
  "cell_entries g c = (case g c of None \<Rightarrow> [] | Some l \<Rightarrow> l)"

definition SpatialGrid_update :: "real \<Rightarrow> Particle list \<Rightarrow> grid option" where
  "SpatialGrid_update cell_size ps =
     for_loop (enumerate 0 ps)
       (\<lambda>(i, p) g. do {
          c \<leftarrow> cell_of cell_size (pos p);
          Some (g(c \<mapsto> cell_entries g c @ [i])) })
       Map.empty"

definition get_neighbors :: "real \<Rightarrow> grid \<Rightarrow> vec \<Rightarrow> nat list option" where
  "get_neighbors cell_size g q = do {
     c \<leftarrow> cell_of cell_size q;
     Some (concat (map (\<lambda>dx. concat (map (\<lambda>dy. cell_entries g (fst c + dx, snd c + dy))
                                        [- 1, 0, 1]))
                       [- 1, 0, 1])) }"

definition Particle_update :: "real \<Rightarrow> Particle \<Rightarrow> Particle" where
  "Particle_update dt p =
     (let v = vadd (vel p) (vscale dt (acc p))
      in p\<lparr>pos := vadd (pos p) (vscale dt v), vel := v, acc := (0, 0)\<rparr>)"

subsection \<open>The simulation\<close>

text \<open>
  The grid of a \<^verbatim>\<open>FluidSimulation\<close> is created with cell size \<^verbatim>\<open>SMOOTHING_RADIUS\<close> and is
  rebuilt from scratch at the start of every \<^verbatim>\<open>update_physics\<close>, so the state keeps the
  domain and the particles only.
\<close>

record FluidSimulation =
  width :: real
  height :: real
  particles :: "Particle list"

definition bound_x :: "real \<Rightarrow> Particle \<Rightarrow> Particle" where
  "bound_x w p =
     (if fst (pos p) < PARTICLE_RADIUS
      then p\<lparr>pos := (PARTICLE_RADIUS, snd (pos p)),
             vel := (fst (vel p) * (- DAMPING), snd (vel p))\<rparr>
      else if fst (pos p) > w - PARTICLE_RADIUS
      then p\<lparr>pos := (w - PARTICLE_RADIUS, snd (pos p)),
             vel := (fst (vel p) * (- DAMPING), snd (vel p))\<rparr>
      else p)"

definition bound_y :: "real \<Rightarrow> Particle \<Rightarrow> Particle" where
  "bound_y h p =
     (if snd (pos p) < PARTICLE_RADIUS
      then p\<lparr>pos := (fst (pos p), PARTICLE_RADIUS),
             vel := (fst (vel p), snd (vel p) * (- DAMPING))\<rparr>
      else if snd (pos p) > h - PARTICLE_RADIUS
      then p\<lparr>pos := (fst (pos p), h - PARTICLE_RADIUS),
             vel := (fst (vel p), snd (vel p) * (- DAMPING))\<rparr>
      else p)"

definition handle_boundaries :: "FluidSimulation \<Rightarrow> FluidSimulation" where
  "handle_boundaries s =
     s\<lparr>particles := map (\<lambda>p. bound_y (height s) (bound_x (width s) p)) (particles s)\<rparr>"

text \<open>First loop of \<^verbatim>\<open>update_physics\<close>: densities and pressures.\<close>

definition density_step :: "grid \<Rightarrow> nat \<Rightarrow> Particle list \<Rightarrow> Particle list option" where
  "density_step g i ps = do {
     p \<leftarrow> lookup ps i;
     neighbor_ids \<leftarrow> get_neighbors SMOOTHING_RADIUS g (pos p);
     d \<leftarrow> for_loop neighbor_ids
            (\<lambda>j d. do {
               neighbor \<leftarrow> lookup ps j;
               k \<leftarrow> poly6_kernel (norm2 (vsub (pos p) (pos neighbor))) SMOOTHING_RADIUS;
               Some (d + k) })
            0;
     Some (ps[i := p\<lparr>density := d,
                     pressure := PRESSURE_STIFFNESS * (d - REST_DENSITY)\<rparr>]) }"

definition density_pass :: "grid \<Rightarrow> Particle list \<Rightarrow> Particle list option" where
  "density_pass g ps = for_loop [0 ..< length ps] (density_step g) ps"

text \<open>
  Second loop of \<^verbatim>\<open>update_physics\<close>: forces. \<^verbatim>\<open>Particle\<close> defines no \<^verbatim>\<open>__eq__\<close>, so
  \<^verbatim>\<open>p == neighbor\<close> compares object identity, that is, the indices.
\<close>

definition pair_force :: "Particle \<Rightarrow> Particle \<Rightarrow> vec \<times> vec \<Rightarrow> (vec \<times> vec) option" where
  "pair_force p neighbor forces =
     (let r_vec = vsub (pos neighbor) (pos p); r = norm2 r_vec
      in if r = 0 then Some forces
         else do {
           u \<leftarrow> vdiv (vscale (- 1) r_vec) r;
           a \<leftarrow> vdiv (vscale (pressure p + pressure neighbor) u) (2 * density neighbor);
           sg \<leftarrow> spiky_gradient r SMOOTHING_RADIUS;
           b \<leftarrow> vdiv (vscale VISCOSITY (vsub (vel neighbor) (vel p))) (density neighbor);
           vl \<leftarrow> viscosity_laplacian r SMOOTHING_RADIUS;
           Some (vadd (fst forces) (vscale sg a), vadd (snd forces) (vscale vl b)) })"

definition force_step :: "grid \<Rightarrow> nat \<Rightarrow> Particle list \<Rightarrow> Particle list option" where
  "force_step g i ps = do {
     p \<leftarrow> lookup ps i;
     neighbor_ids \<leftarrow> get_neighbors SMOOTHING_RADIUS g (pos p);
     forces \<leftarrow> for_loop neighbor_ids
            (\<lambda>j forces. do {
               neighbor \<leftarrow> lookup ps j;
               if j = i then Some forces else pair_force p neighbor forces })
            ((0, 0), (0, 0));
     let gravity_force = vscale (density p) GRAVITY;
         friction_force = vscale (density p) (vscale (- (1 / 10)) (vel p));
         total_force = vadd (vadd (vadd (fst forces) (snd forces)) gravity_force) friction_force
     in do {
       a \<leftarrow> vdiv total_force (density p);
       Some (ps[i := p\<lparr>acc := a\<rparr>]) } }"

definition force_pass :: "grid \<Rightarrow> Particle list \<Rightarrow> Particle list option" where
  "force_pass g ps = for_loop [0 ..< length ps] (force_step g) ps"

definition update_physics :: "FluidSimulation \<Rightarrow> FluidSimulation option" where
  "update_physics s = do {
     g \<leftarrow> SpatialGrid_update SMOOTHING_RADIUS (particles s);
     ps1 \<leftarrow> density_pass g (particles s);
     ps2 \<leftarrow> force_pass g ps1;
     Some (s\<lparr>particles := ps2\<rparr>) }"

definition on_resize :: "real \<times> real \<Rightarrow> FluidSimulation \<Rightarrow> FluidSimulation" where
  "on_resize new_size s =
     s\<lparr>width := fst new_size, height := snd new_size,
       particles := map (\<lambda>p. p\<lparr>pos :=
           (min (max (fst (pos p)) PARTICLE_RADIUS) (fst new_size - PARTICLE_RADIUS),
            min (max (snd (pos p)) PARTICLE_RADIUS) (snd new_size - PARTICLE_RADIUS))\<rparr>)
         (particles s)\<rparr>"

text \<open>
  The physics steps of one pass of the main loop; \<^verbatim>\<open>main\<close> calls them with
  \<open>dt = TIME_STEP\<close>.
\<close>

definition physics_steps :: "real \<Rightarrow> FluidSimulation \<Rightarrow> FluidSimulation option" where
  "physics_steps dt s = do {
     s1 \<leftarrow> update_physics s;
     Some (handle_boundaries (s1\<lparr>particles := map (Particle_update dt) (particles s1)\<rparr>)) }"


section \<open>main-R1.py\<close>

subsection \<open>Constants and kernels\<close>

definition PARTICLE_RADIUS_R1 :: real where "PARTICLE_RADIUS_R1 = 8"
definition GRAVITY_R1 :: real where "GRAVITY_R1 = 750"
definition DAMPING_R1 :: real where "DAMPING_R1 = 95 / 100"
definition BOUNDARY_DAMPING :: real where "BOUNDARY_DAMPING = 8 / 10"
definition SMOOTHING_RADIUS_R1 :: real where "SMOOTHING_RADIUS_R1 = 30"
definition REST_DENSITY_R1 :: real where "REST_DENSITY_R1 = 1000"
definition PRESSURE_STIFFNESS_R1 :: real where "PRESSURE_STIFFNESS_R1 = 50"
definition VISCOSITY_STRENGTH :: real where "VISCOSITY_STRENGTH = 1"
definition SURFACE_TENSION :: real where "SURFACE_TENSION = 5 / 100"
definition EPSILON :: real where "EPSILON = 1 / 10 ^ 8"

definition sph_kernel :: "real \<Rightarrow> real \<Rightarrow> real option" where
  "sph_kernel r h =
     (if r < h then do { c \<leftarrow> fdiv 315 (64 * pi * h ^ 9); Some (c * (h ^ 2 - r ^ 2) ^ 3) }
      else Some 0)"

definition sph_kernel_derivative :: "real \<Rightarrow> real \<Rightarrow> real option" where
  "sph_kernel_derivative r h =
     (if r < h then do { c \<leftarrow> fdiv (- 45) (pi * h ^ 6); Some (c * (h - r) ^ 2) }
      else Some 0)"

definition sph_viscosity_kernel :: "real \<Rightarrow> real \<Rightarrow> real option" where
  "sph_viscosity_kernel r h =
     (if r < EPSILON then Some 0
      else if r < h then do {
        c \<leftarrow> fdiv 15 (2 * pi * h ^ 3);
        t1 \<leftarrow> fdiv (r ^ 3) (2 * h ^ 3);
        t2 \<leftarrow> fdiv (r ^ 2) (h ^ 2);
        t3 \<leftarrow> fdiv h (2 * (r + EPSILON));
        Some (c * (- t1 + t2 + t3 - 1)) }
      else Some 0)"

subsection \<open>Particles, neighbour search, density and forces\<close>

record Particle_R1 =
  p_x :: real
  p_y :: real
  p_vx :: real
  p_vy :: real
  p_ax :: real
  p_ay :: real
  p_radius :: real
  p_mass :: real
  p_density :: real
  p_pressure :: real

definition apply_force :: "real \<Rightarrow> real \<Rightarrow> Particle_R1 \<Rightarrow> Particle_R1 option" where
  "apply_force fx fy p = do {
     a \<leftarrow> fdiv fx (p_mass p);
     b \<leftarrow> fdiv fy (p_mass p);
     Some (p\<lparr>p_ax := p_ax p + a, p_ay := p_ay p + b\<rparr>) }"

definition find_neighbors :: "Particle_R1 list \<Rightarrow> real \<Rightarrow> (nat \<times> real) list list" where
  "find_neighbors ps h =
     fold (\<lambda>i. fold (\<lambda>j neighbors.
                  let dx = p_x (ps ! j) - p_x (ps ! i);
                      dy = p_y (ps ! j) - p_y (ps ! i);
                      r = hypot dx dy
                  in if r < h
                     then let n1 = neighbors[i := neighbors ! i @ [(j, r)]]
                          in n1[j := n1 ! j @ [(i, r)]]
                     else neighbors)
                [Suc i ..< length ps])
          [0 ..< length ps]
          (replicate (length ps) [])"

definition density_step_R1 ::
  "(nat \<times> real) list list \<Rightarrow> real \<Rightarrow> nat \<Rightarrow> Particle_R1 list \<Rightarrow> Particle_R1 list option" where
  "density_step_R1 neighbors h i ps = do {
     p \<leftarrow> lookup ps i;
     ns \<leftarrow> lookup neighbors i;
     d \<leftarrow> for_loop ns
            (\<lambda>(j, r) d. do {
               pj \<leftarrow> lookup ps j;
               k \<leftarrow> sph_kernel r h;
               Some (d + p_mass pj * k) })
            0;
     let d' = max d (REST_DENSITY_R1 * (1 / 10))
     in Some (ps[i := p\<lparr>p_density := d',
                        p_pressure := PRESSURE_STIFFNESS_R1 * (d' - REST_DENSITY_R1)\<rparr>]) }"

definition compute_density_pressure ::
  "Particle_R1 list \<Rightarrow> (nat \<times> real) list list \<Rightarrow> real \<Rightarrow> Particle_R1 list option" where
  "compute_density_pressure ps neighbors h =
     for_loop [0 ..< length ps] (density_step_R1 neighbors h) ps"

record forces_R1 =
  pressure_force_x :: real
  pressure_force_y :: real
  viscosity_force_x :: real
  viscosity_force_y :: real
  tension_force_x :: real
  tension_force_y :: real

definition pair_force_R1 ::
  "Particle_R1 \<Rightarrow> Particle_R1 \<Rightarrow> real \<Rightarrow> real \<Rightarrow> forces_R1 \<Rightarrow> forces_R1 option" where
  "pair_force_R1 p pj r h f =
     (let dx = p_x pj - p_x p;
          dy = p_y pj - p_y p;
          distance = max r EPSILON
      in do {
        dir_x \<leftarrow> fdiv dx distance;
        dir_y \<leftarrow> fdiv dy distance;
        kd \<leftarrow> sph_kernel_derivative r h;
        vk \<leftarrow> sph_viscosity_kernel r h;
        k \<leftarrow> sph_kernel r h;
        let shared_pressure = (p_pressure p + p_pressure pj) / 2;
            pressure_force = - shared_pressure * kd;
            vel_diff_x = p_vx pj - p_vx p;
            vel_diff_y = p_vy pj - p_vy p;
            viscosity = VISCOSITY_STRENGTH * vk;
            cohesion = k * SURFACE_TENSION
        in Some (f\<lparr>pressure_force_x := pressure_force_x f + pressure_force * dir_x,
                   pressure_force_y := pressure_force_y f + pressure_force * dir_y,
                   viscosity_force_x := viscosity_force_x f + viscosity * vel_diff_x,
                   viscosity_force_y := viscosity_force_y f + viscosity * vel_diff_y,
                   tension_force_x := tension_force_x f + cohesion * dir_x,
                   tension_force_y := tension_force_y f + cohesion * dir_y\<rparr>) })"

definition zero_forces :: forces_R1 where
  "zero_forces = \<lparr>pressure_force_x = 0, pressure_force_y = 0, viscosity_force_x = 0,
                  viscosity_force_y = 0, tension_force_x = 0, tension_force_y = 0\<rparr>"

definition force_step_R1 ::
  "(nat \<times> real) list list \<Rightarrow> real \<Rightarrow> nat \<Rightarrow> Particle_R1 list \<Rightarrow> Particle_R1 list option" where
  "force_step_R1 neighbors h i ps = do {
     p \<leftarrow> lookup ps i;
     ns \<leftarrow> lookup neighbors i;
     f \<leftarrow> for_loop ns
            (\<lambda>(j, r) f. do { pj \<leftarrow> lookup ps j; pair_force_R1 p pj r h f })
            zero_forces;
     p1 \<leftarrow> apply_force (pressure_force_x f) (pressure_force_y f) p;
     p2 \<leftarrow> apply_force (viscosity_force_x f) (viscosity_force_y f) p1;
     p3 \<leftarrow> apply_force (tension_force_x f) (tension_force_y f) p2;
     Some (ps[i := p3]) }"

definition compute_forces ::
  "Particle_R1 list \<Rightarrow> (nat \<times> real) list list \<Rightarrow> real \<Rightarrow> Particle_R1 list option" where
  "compute_forces ps neighbors h =
     for_loop [0 ..< length ps] (force_step_R1 neighbors h) ps"

subsection \<open>Collisions and the main loop\<close>

definition collide_pair :: "nat \<Rightarrow> nat \<Rightarrow> Particle_R1 list \<Rightarrow> Particle_R1 list option" where
  "collide_pair i j ps = do {
     p1 \<leftarrow> lookup ps i;
     p2 \<leftarrow> lookup ps j;
     let dx = p_x p2 - p_x p1;
         dy = p_y p2 - p_y p1;
         distance = hypot dx dy;
         min_dist = p_radius p1 + p_radius p2
     in if distance < min_dist \<and> distance > EPSILON
        then do {
          nx \<leftarrow> fdiv dx distance;
          ny \<leftarrow> fdiv dy distance;
          let overlap = (min_dist - distance) / 2;
              dvx = p_vx p2 - p_vx p1;
              dvy = p_vy p2 - p_vy p1
          in do {
            impulse \<leftarrow> fdiv (2 * (dvx * nx + dvy * ny)) (p_mass p1 + p_mass p2);
            Some (ps[i := p1\<lparr>p_x := p_x p1 - overlap * nx,
                              p_y := p_y p1 - overlap * ny,
                              p_vx := p_vx p1 + impulse * p_mass p2 * nx,
                              p_vy := p_vy p1 + impulse * p_mass p2 * ny\<rparr>,
                     j := p2\<lparr>p_x := p_x p2 + overlap * nx,
                              p_y := p_y p2 + overlap * ny,
                              p_vx := p_vx p2 - impulse * p_mass p1 * nx,
                              p_vy := p_vy p2 - impulse * p_mass p1 * ny\<rparr>]) } }
        else Some ps }"

definition handle_collisions :: "Particle_R1 list \<Rightarrow> Particle_R1 list option" where
  "handle_collisions ps =
     (let n = length ps
      in for_loop [0 ..< n] (\<lambda>i. for_loop [Suc i ..< n] (collide_pair i)) ps)"

text \<open>The \<^verbatim>\<open>VIDEORESIZE\<close> branch of \<^verbatim>\<open>main\<close>: the new width, height and particles.\<close>

definition resize_R1 :: "real \<Rightarrow> real \<Rightarrow> Particle_R1 list \<Rightarrow> real \<times> real \<times> Particle_R1 list" where
  "resize_R1 new_width new_height ps =
     (new_width, new_height,
      map (\<lambda>p. p\<lparr>p_x := max PARTICLE_RADIUS_R1 (min (p_x p) (new_width - PARTICLE_RADIUS_R1)),
                 p_y := max PARTICLE_RADIUS_R1 (min (p_y p) (new_height - PARTICLE_RADIUS_R1))\<rparr>)
          ps)"

text \<open>The body of the loop \<^verbatim>\<open># Update particles\<close>: integration, then the boundary.\<close>

definition integrate_R1 :: "real \<Rightarrow> Particle_R1 \<Rightarrow> Particle_R1" where
  "integrate_R1 dt p =
     (let vx = p_vx p + p_ax p * dt;
          vy = p_vy p + p_ay p * dt
      in p\<lparr>p_vx := vx, p_vy := vy, p_x := p_x p + vx * dt, p_y := p_y p + vy * dt,
           p_ax := 0, p_ay := 0\<rparr>)"

definition bound_x_R1 :: "real \<Rightarrow> Particle_R1 \<Rightarrow> Particle_R1" where
  "bound_x_R1 win_width p =
     (if p_x p < p_radius p
      then p\<lparr>p_x := p_radius p, p_vx := p_vx p * (- BOUNDARY_DAMPING)\<rparr>
      else if p_x p > win_width - p_radius p
      then p\<lparr>p_x := win_width - p_radius p, p_vx := p_vx p * (- BOUNDARY_DAMPING)\<rparr>
      else p)"

definition bound_y_R1 :: "real \<Rightarrow> Particle_R1 \<Rightarrow> Particle_R1" where
  "bound_y_R1 win_height p =
     (if p_y p < p_radius p
      then p\<lparr>p_y := p_radius p, p_vy := p_vy p * (- BOUNDARY_DAMPING)\<rparr>
      else if p_y p > win_height - p_radius p
      then p\<lparr>p_y := win_height - p_radius p, p_vy := p_vy p * (- BOUNDARY_DAMPING)\<rparr>
      else p)"

definition update_particle_R1 :: "real \<Rightarrow> real \<Rightarrow> real \<Rightarrow> Particle_R1 \<Rightarrow> Particle_R1" where
  "update_particle_R1 dt win_width win_height p = bound_y_R1 win_height (bound_x_R1 win_width (integrate_R1 dt p))"

definition global_damping :: "Particle_R1 \<Rightarrow> Particle_R1" where
  "global_damping p = p\<lparr>p_vx := p_vx p * DAMPING_R1, p_vy := p_vy p * DAMPING_R1\<rparr>"

text \<open>One pass of the main loop after the events, from the neighbour search to the damping.\<close>

definition frame_R1 :: "real \<Rightarrow> real \<Rightarrow> real \<Rightarrow> Particle_R1 list \<Rightarrow> Particle_R1 list option" where
  "frame_R1 dt win_width win_height ps = do {
     let neighbors = find_neighbors ps SMOOTHING_RADIUS_R1;
     ps1 \<leftarrow> compute_density_pressure ps neighbors SMOOTHING_RADIUS_R1;
     ps2 \<leftarrow> compute_forces ps1 neighbors SMOOTHING_RADIUS_R1;
     ps3 \<leftarrow> for_each (\<lambda>p. apply_force 0 (GRAVITY_R1 * p_mass p) p) ps2;
     ps4 \<leftarrow> handle_collisions (map (update_particle_R1 dt win_width win_height) ps3);
     Some (map global_damping ps4) }"

section \<open>main-o1.py\<close>

definition BALL_RADIUS :: real where "BALL_RADIUS = 8"
definition GRAVITY_o1 :: real where "GRAVITY_o1 = 2 / 10"
definition FRICTION :: real where "FRICTION = 99 / 100"
definition ELASTICITY :: real where "ELASTICITY = 9 / 10"

record Ball =
  ball_x :: real
  ball_y :: real
  ball_vx :: real
  ball_vy :: real

definition Ball_update :: "Ball \<Rightarrow> Ball" where
  "Ball_update b =
     (let vy = ball_vy b + GRAVITY_o1
      in b\<lparr>ball_x := ball_x b + ball_vx b, ball_y := ball_y b + vy,
           ball_vx := ball_vx b * FRICTION, ball_vy := vy * FRICTION\<rparr>)"

definition collide_balls :: "nat \<Rightarrow> nat \<Rightarrow> Ball list \<Rightarrow> Ball list option" where
  "collide_balls i j balls = do {
     bi \<leftarrow> lookup balls i;
     bj \<leftarrow> lookup balls j;
     let dx = ball_x bj - ball_x bi;
         dy = ball_y bj - ball_y bi;
         dist_sq = dx * dx + dy * dy
     in if dist_sq < (2 * BALL_RADIUS) ^ 2
        then do {
          let dist = (if dist_sq \<noteq> 0 then sqrt dist_sq else 1 / 10000);
          nx \<leftarrow> fdiv dx dist;
          ny \<leftarrow> fdiv dy dist;
          let overlap = (2 * BALL_RADIUS - dist) * (1 / 2);
              bi1 = bi\<lparr>ball_x := ball_x bi - nx * overlap, ball_y := ball_y bi - ny * overlap\<rparr>;
              bj1 = bj\<lparr>ball_x := ball_x bj + nx * overlap, ball_y := ball_y bj + ny * overlap\<rparr>;
              rel_vx = ball_vx bj - ball_vx bi;
              rel_vy = ball_vy bj - ball_vy bi;
              sep_speed = rel_vx * nx + rel_vy * ny
          in if sep_speed < 0
             then let imp = - (1 + ELASTICITY) * sep_speed / 2;
                      ix = imp * nx;
                      iy = imp * ny
                  in Some (balls[i := bi1\<lparr>ball_vx := ball_vx bi - ix, ball_vy := ball_vy bi - iy\<rparr>,
                                 j := bj1\<lparr>ball_vx := ball_vx bj + ix, ball_vy := ball_vy bj + iy\<rparr>])
             else Some (balls[i := bi1, j := bj1]) }
        else Some balls }"

definition handle_ball_collisions :: "Ball list \<Rightarrow> Ball list option" where
  "handle_ball_collisions balls =
     (let n = length balls
      in for_loop [0 ..< n] (\<lambda>i. for_loop [Suc i ..< n] (collide_balls i)) balls)"

definition wall_x :: "real \<Rightarrow> Ball \<Rightarrow> Ball" where
  "wall_x win_width b =
     (if ball_x b < BALL_RADIUS
      then b\<lparr>ball_x := BALL_RADIUS, ball_vx := - ball_vx b * ELASTICITY\<rparr>
      else if ball_x b > win_width - BALL_RADIUS
      then b\<lparr>ball_x := win_width - BALL_RADIUS, ball_vx := - ball_vx b * ELASTICITY\<rparr>
      else b)"

definition wall_y :: "real \<Rightarrow> Ball \<Rightarrow> Ball" where
  "wall_y win_height b =
     (if ball_y b < BALL_RADIUS
      then b\<lparr>ball_y := BALL_RADIUS, ball_vy := - ball_vy b * ELASTICITY\<rparr>
      else if ball_y b > win_height - BALL_RADIUS
      then b\<lparr>ball_y := win_height - BALL_RADIUS, ball_vy := - ball_vy b * ELASTICITY\<rparr>
      else b)"

definition handle_wall_collisions :: "Ball list \<Rightarrow> real \<Rightarrow> real \<Rightarrow> Ball list" where
  "handle_wall_collisions balls win_width win_height = map (\<lambda>b. wall_y win_height (wall_x win_width b)) balls"

text \<open>
  The \<^verbatim>\<open>VIDEORESIZE\<close> branch of \<^verbatim>\<open>main\<close>: the current width, height and balls after the
  event. A window smaller than a ball is ignored.
\<close>

definition resize_o1 ::
  "real \<Rightarrow> real \<Rightarrow> real \<times> real \<times> Ball list \<Rightarrow> (real \<times> real \<times> Ball list) option" where
  "resize_o1 new_width new_height st =
     (case st of (current_width, current_height, balls) \<Rightarrow>
        if new_width < 2 * BALL_RADIUS \<or> new_height < 2 * BALL_RADIUS then Some st
        else do {
          scale_x \<leftarrow> fdiv new_width current_width;
          scale_y \<leftarrow> fdiv new_height current_height;
          Some (new_width, new_height,
                map (\<lambda>b. b\<lparr>ball_x := ball_x b * scale_x, ball_y := ball_y b * scale_y\<rparr>) balls) })"

definition frame_o1 :: "real \<Rightarrow> real \<Rightarrow> Ball list \<Rightarrow> Ball list option" where
  "frame_o1 win_width win_height balls = do {
     balls1 \<leftarrow> handle_ball_collisions (map Ball_update balls);
     Some (handle_wall_collisions balls1 win_width win_height) }"

section \<open>Auxiliary notions\<close>

text \<open>The cell of a position when the cell size is not zero.\<close>

definition cell_index :: "real \<Rightarrow> vec \<Rightarrow> int \<times> int" where
  "cell_index cell_size p = (py_int (fst p / cell_size), py_int (snd p / cell_size))"

text \<open>A particle at rest, for concrete instances.\<close>

definition particle_at :: "real \<Rightarrow> real \<Rightarrow> Particle" where
  "particle_at x y = \<lparr>pos = (x, y), vel = (0, 0), acc = (0, 0), density = 300, pressure = 0\<rparr>"

definition in_range :: "real \<Rightarrow> real \<Rightarrow> real \<Rightarrow> bool" where
  "in_range lo hi v \<longleftrightarrow> lo \<le> v \<and> v \<le> hi"

definition ball_at :: "real \<Rightarrow> real \<Rightarrow> Ball" where
  "ball_at x y = \<lparr>ball_x = x, ball_y = y, ball_vx = 0, ball_vy = 0\<rparr>"

definition particle_R1_at :: "real \<Rightarrow> real \<Rightarrow> Particle_R1" where
  "particle_R1_at x y = \<lparr>p_x = x, p_y = y, p_vx = 0, p_vy = 0, p_ax = 0, p_ay = 0,
     p_radius = PARTICLE_RADIUS_R1, p_mass = 1, p_density = REST_DENSITY_R1, p_pressure = 0\<rparr>"

text \<open>The candidates of a position, the value of \<^verbatim>\<open>poly6_kernel\<close> at the smoothing radius and
  the kernel sum of a particle, as the first loop of \<^verbatim>\<open>update_physics\<close> computes them.\<close>

definition block_ids :: "grid \<Rightarrow> vec \<Rightarrow> nat list" where
  "block_ids g q =
     concat (map (\<lambda>dx. concat (map (\<lambda>dy. cell_entries g (fst (cell_index SMOOTHING_RADIUS q) + dx,
                                                       snd (cell_index SMOOTHING_RADIUS q) + dy))
                                  [- 1, 0, 1]))
                 [- 1, 0, 1])"

definition poly6_value :: "real \<Rightarrow> real" where
  "poly6_value r =
     (if r < SMOOTHING_RADIUS
      then 315 / (64 * pi * SMOOTHING_RADIUS ^ 9) * (SMOOTHING_RADIUS ^ 2 - r ^ 2) ^ 3
      else 0)"

definition kernel_sum :: "grid \<Rightarrow> Particle list \<Rightarrow> Particle \<Rightarrow> real" where
  "kernel_sum g ps p =
     sum_list (map (\<lambda>j. poly6_value (norm2 (vsub (pos p) (pos (ps ! j))))) (block_ids g (pos p)))"

definition with_density :: "grid \<Rightarrow> Particle list \<Rightarrow> Particle \<Rightarrow> Particle" where
  "with_density g ps p =
     p\<lparr>density := kernel_sum g ps p,
       pressure := PRESSURE_STIFFNESS * (kernel_sum g ps p - REST_DENSITY)\<rparr>"

definition same_but_acc :: "Particle list \<Rightarrow> Particle list \<Rightarrow> bool" where
  "same_but_acc qs ps \<longleftrightarrow>
     length qs = length ps \<and>
     (\<forall>j<length ps. pos (qs ! j) = pos (ps ! j) \<and> vel (qs ! j) = vel (ps ! j) \<and>
        density (qs ! j) = density (ps ! j) \<and> pressure (qs ! j) = pressure (ps ! j))"

text \<open>The distance of two particles of a list, as \<^verbatim>\<open>find_neighbors\<close> computes it, the update
  it makes for one pair, and the entries that a pair adds to the row of a particle.\<close>

definition sep :: "Particle_R1 list \<Rightarrow> nat \<Rightarrow> nat \<Rightarrow> real" where
  "sep ps i j = hypot (p_x (ps ! j) - p_x (ps ! i)) (p_y (ps ! j) - p_y (ps ! i))"

definition add_pair ::
  "Particle_R1 list \<Rightarrow> real \<Rightarrow> nat \<times> nat \<Rightarrow> (nat \<times> real) list list \<Rightarrow> (nat \<times> real) list list" where
  "add_pair ps h ij neighbors =
     (if sep ps (fst ij) (snd ij) < h
      then (neighbors[fst ij := neighbors ! fst ij @ [(snd ij, sep ps (fst ij) (snd ij))]])
             [snd ij := (neighbors[fst ij := neighbors ! fst ij @ [(snd ij, sep ps (fst ij) (snd ij))]])
                          ! snd ij @ [(fst ij, sep ps (fst ij) (snd ij))]]
      else neighbors)"

definition pair_entries :: "Particle_R1 list \<Rightarrow> real \<Rightarrow> nat \<Rightarrow> nat \<times> nat \<Rightarrow> (nat \<times> real) list" where
  "pair_entries ps h k ij =
     (if sep ps (fst ij) (snd ij) < h
      then (if k = fst ij then [(snd ij, sep ps (fst ij) (snd ij))]
            else if k = snd ij then [(fst ij, sep ps (fst ij) (snd ij))] else [])
      else [])"

definition close_neighbors :: "Particle_R1 list \<Rightarrow> real \<Rightarrow> nat \<Rightarrow> (nat \<times> real) list" where
  "close_neighbors ps h k =
     map (\<lambda>j. (j, sep ps k j)) (filter (\<lambda>j. j \<noteq> k \<and> sep ps k j < h) [0 ..< length ps])"

text \<open>The value of \<^verbatim>\<open>sph_kernel\<close> and the particle that \<^verbatim>\<open>compute_density_pressure\<close> stores
  at an index, given the rows of neighbours.\<close>

definition sph_kernel_value :: "real \<Rightarrow> real \<Rightarrow> real" where
  "sph_kernel_value r h = (if r < h then 315 / (64 * pi * h ^ 9) * (h ^ 2 - r ^ 2) ^ 3 else 0)"

definition neighbor_mass_sum :: "Particle_R1 list \<Rightarrow> real \<Rightarrow> (nat \<times> real) list \<Rightarrow> real" where
  "neighbor_mass_sum ps h ns =
     sum_list (map (\<lambda>jr. p_mass (ps ! fst jr) * sph_kernel_value (snd jr) h) ns)"

definition with_density_R1 :: "real \<Rightarrow> Particle_R1 \<Rightarrow> Particle_R1" where
  "with_density_R1 d p =
     p\<lparr>p_density := max d (REST_DENSITY_R1 * (1 / 10)),
       p_pressure := PRESSURE_STIFFNESS_R1 * (max d (REST_DENSITY_R1 * (1 / 10)) - REST_DENSITY_R1)\<rparr>"

text \<open>Two lists of particles that differ in the accelerations only.\<close>

definition same_but_acc_R1 :: "Particle_R1 list \<Rightarrow> Particle_R1 list \<Rightarrow> bool" where
  "same_but_acc_R1 qs ps \<longleftrightarrow>
     length qs = length ps \<and>
     (\<forall>j<length ps. \<exists>ax ay. qs ! j = (ps ! j)\<lparr>p_ax := ax, p_ay := ay\<rparr>)"

section \<open>Loops and checked operations\<close>

lemma fdiv_Some: "b \<noteq> 0 \<Longrightarrow> fdiv a b = Some (a / b)"
  by (simp add: fdiv_def)

lemma lookup_Some: "i < length xs \<Longrightarrow> lookup xs i = Some (xs ! i)"
  by (simp add: lookup_def)

lemma for_loop_append:
  "for_loop (xs @ ys) body s = Option.bind (for_loop xs body s) (for_loop ys body)"
  by (induction xs arbitrary: s) (auto split: bind_splits)

lemma for_loop_single: "for_loop [x] body s = body x s"
  by (cases "body x s") simp_all

lemma for_loop_invariant:
  assumes "for_loop xs body s = Some s'" and "I s"
    and "\<And>x t t'. x \<in> set xs \<Longrightarrow> I t \<Longrightarrow> body x t = Some t' \<Longrightarrow> I t'"
  shows "I s'"
  using assms
proof (induction xs arbitrary: s)
  case Nil
  then show ?case by simp
next
  case (Cons x xs)
  from Cons.prems(1) obtain t where t: "body x s = Some t" "for_loop xs body t = Some s'"
    by (auto split: bind_splits)
  have "I t" by (rule Cons.prems(3) [OF _ Cons.prems(2) t(1)]) simp
  then show ?case
  proof (rule Cons.IH [OF t(2)])
    fix y u u' assume "y \<in> set xs" "I u" "body y u = Some u'"
    then show "I u'" using Cons.prems(3) [of y u u'] by simp
  qed
qed

lemma for_loop_total:
  assumes "I s"
    and "\<And>x t. x \<in> set xs \<Longrightarrow> I t \<Longrightarrow> \<exists>t'. body x t = Some t' \<and> I t'"
  shows "\<exists>s'. for_loop xs body s = Some s' \<and> I s'"
  using assms
proof (induction xs arbitrary: s)
  case Nil
  then show ?case by simp
next
  case (Cons x xs)
  from Cons.prems obtain t where t: "body x s = Some t" "I t" by fastforce
  from Cons.IH [OF t(2)] Cons.prems(2) obtain s' where "for_loop xs body t = Some s'" "I s'"
    by auto
  then show ?case using t by simp
qed

lemma for_loop_sum:
  assumes "\<And>x d. x \<in> set xs \<Longrightarrow> body x d = Some (d + v x)"
  shows "for_loop xs body (d0::real) = Some (d0 + sum_list (map v xs))"
  using assms by (induction xs arbitrary: d0) (simp_all add: add.assoc)

lemma for_loop_indexed_map:
  assumes step: "\<And>i qs. i < length ps \<Longrightarrow> qs = map F (take i ps) @ drop i ps \<Longrightarrow>
             step i qs = Some (qs[i := F (ps ! i)])"
  shows "for_loop [0 ..< length ps] step ps = Some (map F ps)"
proof -
  have "m \<le> length ps \<Longrightarrow> for_loop [0 ..< m] step ps = Some (map F (take m ps) @ drop m ps)" for m
  proof (induction m)
    case 0
    then show ?case by simp
  next
    case (Suc m)
    then have m: "m < length ps" by simp
    let ?qs = "map F (take m ps) @ drop m ps"
    have "for_loop [0 ..< Suc m] step ps = step m ?qs"
      using Suc by (simp add: for_loop_append for_loop_single del: for_loop.simps)
    also have "\<dots> = Some (?qs[m := F (ps ! m)])" using step [OF m refl] .
    also have "?qs[m := F (ps ! m)] = map F (take (Suc m) ps) @ drop (Suc m) ps"
      using m by (simp add: take_Suc_conv_app_nth list_update_append Cons_nth_drop_Suc [symmetric])
    finally show ?case .
  qed
  from this [of "length ps"] show ?thesis by simp
qed

lemma for_each_map:
  assumes "\<And>x. x \<in> set xs \<Longrightarrow> f x = Some (g x)"
  shows "for_each f xs = Some (map g xs)"
  using assms by (induction xs) simp_all

section \<open>The spatial grid\<close>

lemma cell_of_Some: "cs \<noteq> 0 \<Longrightarrow> cell_of cs p = Some (cell_index cs p)"
  by (simp add: cell_of_def cell_index_def fdiv_Some)

lemma cell_entries_upd:
  "cell_entries (g(c0 \<mapsto> l)) c = (if c = c0 then l else cell_entries g c)"
  by (simp add: cell_entries_def)

lemma grid_loop:
  assumes "cs \<noteq> 0"
  shows "\<exists>g. for_loop (enumerate n (ps :: Particle list))
            (\<lambda>(i, p) g. do { c \<leftarrow> cell_of cs (pos p); Some (g(c \<mapsto> cell_entries g c @ [i])) }) g0
          = Some g \<and>
          (\<forall>c. cell_entries g c =
             cell_entries g0 c @ map fst (filter (\<lambda>ip. cell_index cs (pos (snd ip)) = c) (enumerate n ps)))"
proof -
  define body :: "nat \<times> Particle \<Rightarrow> grid \<Rightarrow> grid option"
    where "body = (\<lambda>(i, p) g. do { c \<leftarrow> cell_of cs (pos p); Some (g(c \<mapsto> cell_entries g c @ [i])) })"
  have body: "body (i, p) g = Some (g(cell_index cs (pos p) \<mapsto> cell_entries g (cell_index cs (pos p)) @ [i]))"
    for i p g using assms by (simp add: body_def cell_of_Some)
  have "\<exists>g. for_loop (enumerate n ps) body g0 = Some g \<and>
          (\<forall>c. cell_entries g c =
             cell_entries g0 c @ map fst (filter (\<lambda>ip. cell_index cs (pos (snd ip)) = c) (enumerate n ps)))"
  proof (induction ps arbitrary: n g0)
    case Nil
    then show ?case by simp
  next
    case (Cons p ps)
    let ?c0 = "cell_index cs (pos p)"
    let ?g1 = "g0(?c0 \<mapsto> cell_entries g0 ?c0 @ [n])"
    from Cons [of "Suc n" ?g1] obtain g where
      g: "for_loop (enumerate (Suc n) ps) body ?g1 = Some g"
         "\<And>c. cell_entries g c =
               cell_entries ?g1 c @ map fst (filter (\<lambda>ip. cell_index cs (pos (snd ip)) = c) (enumerate (Suc n) ps))"
      by blast
    have run: "for_loop (enumerate n (p # ps)) body g0 = Some g"
      using g(1) by (simp add: body)
    have "cell_entries g c =
            cell_entries g0 c @ map fst (filter (\<lambda>ip. cell_index cs (pos (snd ip)) = c) (enumerate n (p # ps)))" for c
      unfolding g(2) [of c] cell_entries_upd by simp
    with run show ?case by blast
  qed
  then show ?thesis by (simp add: body_def)
qed

lemma filter_enumerate:
  "map fst (filter (\<lambda>ip. Q (snd ip)) (enumerate n ps))
   = filter (\<lambda>i. Q (ps ! (i - n))) [n ..< n + length ps]"
proof (induction ps arbitrary: n)
  case Nil
  then show ?case by simp
next
  case (Cons p ps)
  have "filter (\<lambda>i. Q ((p # ps) ! (i - n))) [Suc n ..< Suc n + length ps]
        = filter (\<lambda>i. Q (ps ! (i - Suc n))) [Suc n ..< Suc n + length ps]"
    by (rule filter_cong) (auto simp: nth_Cons')
  then show ?case using Cons [of "Suc n"]
    by (simp add: upt_conv_Cons del: upt_Suc)
qed

lemma SpatialGrid_update_entries:
  assumes "cs \<noteq> 0"
  shows "\<exists>g. SpatialGrid_update cs ps = Some g \<and>
          (\<forall>c. cell_entries g c = filter (\<lambda>i. cell_index cs (pos (ps ! i)) = c) [0 ..< length ps])"
proof -
  from grid_loop [OF assms, of 0 ps Map.empty] obtain g where
    g: "SpatialGrid_update cs ps = Some g"
       "\<And>c. cell_entries g c = map fst (filter (\<lambda>ip. cell_index cs (pos (snd ip)) = c) (enumerate 0 ps))"
    unfolding SpatialGrid_update_def by (auto simp: cell_entries_def)
  show ?thesis using g(1) g(2) filter_enumerate [of "\<lambda>p. cell_index cs (pos p) = c" 0 ps for c]
    by simp
qed

lemma get_neighbors_Some:
  "cs \<noteq> 0 \<Longrightarrow> get_neighbors cs g q =
     Some (concat (map (\<lambda>dx. concat (map (\<lambda>dy. cell_entries g (fst (cell_index cs q) + dx, snd (cell_index cs q) + dy))
                                        [- 1, 0, 1]))
                       [- 1, 0, 1]))"
  by (simp add: get_neighbors_def cell_of_Some)

lemma py_int_adjacent:
  assumes "0 \<le> u" and "\<bar>u - v\<bar> < 1"
  shows "py_int u - py_int v \<in> {- 1, 0, 1}"
proof (cases "0 \<le> v")
  case True
  then have "py_int u = \<lfloor>u\<rfloor>" "py_int v = \<lfloor>v\<rfloor>" using assms by (simp_all add: py_int_def)
  moreover have "\<lfloor>u\<rfloor> - \<lfloor>v\<rfloor> \<le> 1" "- 1 \<le> \<lfloor>u\<rfloor> - \<lfloor>v\<rfloor>" using assms(2) by linarith+
  ultimately show ?thesis by auto
next
  case False
  then have v: "- 1 < v" "v < 0" using assms by linarith+
  then have "\<lceil>v\<rceil> = 0" by linarith
  moreover have "\<lfloor>u\<rfloor> = 0" using assms v by linarith
  ultimately show ?thesis using assms False by (simp add: py_int_def)
qed

lemma abs_le_hypot: "\<bar>dx\<bar> \<le> hypot dx dy \<and> \<bar>dy\<bar> \<le> hypot dx dy"
proof
  have "sqrt (dx * dx) \<le> sqrt (dx * dx + dy * dy)" by (rule real_sqrt_le_mono) simp
  then show "\<bar>dx\<bar> \<le> hypot dx dy" by (simp add: hypot_def)
  have "sqrt (dy * dy) \<le> sqrt (dx * dx + dy * dy)" by (rule real_sqrt_le_mono) simp
  then show "\<bar>dy\<bar> \<le> hypot dx dy" by (simp add: hypot_def)
qed

lemma near_cells:
  assumes "0 < cs" "0 \<le> a" "\<bar>a - b\<bar> < cs"
  shows "py_int (a / cs) - py_int (b / cs) \<in> {- 1, 0, 1}"
proof (rule py_int_adjacent)
  show "0 \<le> a / cs" using assms by simp
  have "\<bar>a / cs - b / cs\<bar> = \<bar>a - b\<bar> / cs" using assms by (simp add: diff_divide_distrib [symmetric])
  then show "\<bar>a / cs - b / cs\<bar> < 1" using assms by simp
qed

lemma in_block:
  "i \<in> set (concat (map (\<lambda>dx. concat (map (\<lambda>dy. cell_entries g (cx + dx, cy + dy)) [- 1, 0, 1])) [- 1, 0, 1]))
   \<longleftrightarrow> (\<exists>dx\<in>{- 1, 0, 1}. \<exists>dy\<in>{- 1, 0, 1}. i \<in> set (cell_entries g (cx + dx, cy + dy)))"
  by auto

lemma py_int_nonneg: "0 \<le> v \<Longrightarrow> py_int v = \<lfloor>v\<rfloor>"
  by (simp add: py_int_def)

lemma adjacent_abs: "(d::int) \<in> {- 1, 0, 1} \<longleftrightarrow> \<bar>d\<bar> \<le> 1"
  by auto

lemma block_members:
  assumes ent: "\<And>c. cell_entries g c = filter (\<lambda>i. cell_index cs (pos (ps ! i)) = c) [0 ..< length ps]"
  shows "i \<in> set (concat (map (\<lambda>dx. concat (map (\<lambda>dy. cell_entries g (cx + dx, cy + dy)) [- 1, 0, 1])) [- 1, 0, 1]))
     \<longleftrightarrow> i < length ps \<and>
         py_int (fst (pos (ps ! i)) / cs) - cx \<in> {- 1, 0, 1} \<and>
         py_int (snd (pos (ps ! i)) / cs) - cy \<in> {- 1, 0, 1}"
    (is "?L \<longleftrightarrow> ?R")
proof
  assume ?L
  then obtain dx dy where d: "dx \<in> {- 1, 0, 1}" "dy \<in> {- 1, 0, 1}"
      and i: "i \<in> set (cell_entries g (cx + dx, cy + dy))"
    unfolding in_block by blast
  from i have "i < length ps" "cell_index cs (pos (ps ! i)) = (cx + dx, cy + dy)"
    by (simp_all add: ent)
  then have "i < length ps" "py_int (fst (pos (ps ! i)) / cs) - cx = dx"
    "py_int (snd (pos (ps ! i)) / cs) - cy = dy"
    by (simp_all add: cell_index_def)
  with d show ?R by simp
next
  assume r: ?R
  define dx where "dx = py_int (fst (pos (ps ! i)) / cs) - cx"
  define dy where "dy = py_int (snd (pos (ps ! i)) / cs) - cy"
  have "cell_index cs (pos (ps ! i)) = (cx + dx, cy + dy)"
    by (simp add: cell_index_def dx_def dy_def)
  then have "i \<in> set (cell_entries g (cx + dx, cy + dy))"
    using r by (simp add: ent)
  moreover have "dx \<in> {- 1, 0, 1}" "dy \<in> {- 1, 0, 1}" using r by (simp_all add: dx_def dy_def)
  ultimately show ?L unfolding in_block by blast
qed

lemma trunc_minus_third: "\<lceil>- (1 / 3) :: real\<rceil> = 0" "\<lfloor>- (1 / 3) :: real\<rfloor> = - 1"
  by linarith+

text \<open>
  Claim C7, amended. After the grid has been rebuilt from a particle list,
  \<^verbatim>\<open>get_neighbors\<close> returns exactly the indices stored in the 3 by 3 block of cells around
  the cell of the query position, where the cell of a position is computed by \<^verbatim>\<open>int()\<close>,
  which truncates toward zero, and every cell holds the indices of the particles whose
  position truncates to it. For particles with nonnegative coordinates and a query position
  with nonnegative coordinates the truncation is the floor, so the returned indices are
  exactly those of the particles whose cell \<open>\<lfloor>position / cell_size\<rfloor>\<close> differs from the cell
  \<open>\<lfloor>query / cell_size\<rfloor>\<close> of the query position by at most one on each axis. For particles
  with nonnegative coordinates and every query position, every particle closer than the
  cell size to the query position is among the returned indices.
\<close>

theorem get_neighbors_block_superset:
  assumes "0 < cs"
  shows "\<exists>g ns. SpatialGrid_update cs ps = Some g \<and> get_neighbors cs g q = Some ns \<and>
           (\<forall>c. set (cell_entries g c) =
                  {i. i < length ps \<and>
                      (py_int (fst (pos (ps ! i)) / cs), py_int (snd (pos (ps ! i)) / cs)) = c}) \<and>
           set ns = (\<Union>dx\<in>{- 1, 0, 1}. \<Union>dy\<in>{- 1, 0, 1}.
                       set (cell_entries g (py_int (fst q / cs) + dx, py_int (snd q / cs) + dy))) \<and>
           set ns = {i. i < length ps \<and>
                        py_int (fst (pos (ps ! i)) / cs) - py_int (fst q / cs) \<in> {- 1, 0, 1} \<and>
                        py_int (snd (pos (ps ! i)) / cs) - py_int (snd q / cs) \<in> {- 1, 0, 1}} \<and>
           ((\<forall>p\<in>set ps. 0 \<le> fst (pos p) \<and> 0 \<le> snd (pos p)) \<longrightarrow>
              (\<forall>i<length ps. norm2 (vsub (pos (ps ! i)) q) < cs \<longrightarrow> i \<in> set ns)) \<and>
           ((\<forall>p\<in>set ps. 0 \<le> fst (pos p) \<and> 0 \<le> snd (pos p)) \<and> 0 \<le> fst q \<and> 0 \<le> snd q \<longrightarrow>
              set ns = {i. i < length ps \<and>
                           \<bar>\<lfloor>fst (pos (ps ! i)) / cs\<rfloor> - \<lfloor>fst q / cs\<rfloor>\<bar> \<le> 1 \<and>
                           \<bar>\<lfloor>snd (pos (ps ! i)) / cs\<rfloor> - \<lfloor>snd q / cs\<rfloor>\<bar> \<le> 1})"
proof -
  have cs: "cs \<noteq> 0" using assms by simp
  from SpatialGrid_update_entries [OF cs, of ps] obtain g where
    g: "SpatialGrid_update cs ps = Some g"
       "\<And>c. cell_entries g c = filter (\<lambda>i. cell_index cs (pos (ps ! i)) = c) [0 ..< length ps]"
    by blast
  let ?cx = "py_int (fst q / cs)"
  let ?cy = "py_int (snd q / cs)"
  let ?ns = "concat (map (\<lambda>dx. concat (map (\<lambda>dy. cell_entries g (?cx + dx, ?cy + dy)) [- 1, 0, 1])) [- 1, 0, 1])"
  have gn: "get_neighbors cs g q = Some ?ns"
    unfolding get_neighbors_Some [OF cs] by (simp add: cell_index_def)
  have ent: "set (cell_entries g c) =
      {i. i < length ps \<and> (py_int (fst (pos (ps ! i)) / cs), py_int (snd (pos (ps ! i)) / cs)) = c}" for c
    by (rule set_eqI) (simp add: g(2) cell_index_def)
  have block: "set ?ns = (\<Union>dx\<in>{- 1, 0, 1}. \<Union>dy\<in>{- 1, 0, 1}. set (cell_entries g (?cx + dx, ?cy + dy)))"
    by (rule set_eqI) (simp only: in_block UN_iff)
  have mem: "i \<in> set ?ns \<longleftrightarrow> i < length ps \<and>
         py_int (fst (pos (ps ! i)) / cs) - ?cx \<in> {- 1, 0, 1} \<and>
         py_int (snd (pos (ps ! i)) / cs) - ?cy \<in> {- 1, 0, 1}" for i
    by (rule block_members [OF g(2)])
  have char: "set ?ns = {i. i < length ps \<and>
                        py_int (fst (pos (ps ! i)) / cs) - ?cx \<in> {- 1, 0, 1} \<and>
                        py_int (snd (pos (ps ! i)) / cs) - ?cy \<in> {- 1, 0, 1}}"
    by (rule set_eqI) (simp only: mem mem_Collect_eq)
  have sup: "i \<in> set ?ns"
    if nonneg: "\<forall>p\<in>set ps. 0 \<le> fst (pos p) \<and> 0 \<le> snd (pos p)"
      and i: "i < length ps" and d: "norm2 (vsub (pos (ps ! i)) q) < cs" for i
  proof -
    let ?p = "pos (ps ! i)"
    have p: "0 \<le> fst ?p" "0 \<le> snd ?p" using nonneg i by simp_all
    have "\<bar>fst ?p - fst q\<bar> < cs" "\<bar>snd ?p - snd q\<bar> < cs"
      using d abs_le_hypot [of "fst ?p - fst q" "snd ?p - snd q"]
      by (simp_all add: norm2_def vsub_def)
    then have "py_int (fst ?p / cs) - ?cx \<in> {- 1, 0, 1}"
      and "py_int (snd ?p / cs) - ?cy \<in> {- 1, 0, 1}"
      using near_cells [OF assms] p by simp_all
    with i show ?thesis unfolding mem by simp
  qed
  have fl: "set ?ns = {i. i < length ps \<and>
                           \<bar>\<lfloor>fst (pos (ps ! i)) / cs\<rfloor> - \<lfloor>fst q / cs\<rfloor>\<bar> \<le> 1 \<and>
                           \<bar>\<lfloor>snd (pos (ps ! i)) / cs\<rfloor> - \<lfloor>snd q / cs\<rfloor>\<bar> \<le> 1}"
    if nonneg: "(\<forall>p\<in>set ps. 0 \<le> fst (pos p) \<and> 0 \<le> snd (pos p)) \<and> 0 \<le> fst q \<and> 0 \<le> snd q"
  proof (rule set_eqI)
    fix i
    have q: "?cx = \<lfloor>fst q / cs\<rfloor>" "?cy = \<lfloor>snd q / cs\<rfloor>"
      using nonneg assms by (simp_all add: py_int_nonneg)
    have p: "py_int (fst (pos (ps ! i)) / cs) = \<lfloor>fst (pos (ps ! i)) / cs\<rfloor>"
      "py_int (snd (pos (ps ! i)) / cs) = \<lfloor>snd (pos (ps ! i)) / cs\<rfloor>" if "i < length ps"
      using nonneg assms that by (simp_all add: py_int_nonneg)
    show "i \<in> set ?ns \<longleftrightarrow> i \<in> {i. i < length ps \<and>
                           \<bar>\<lfloor>fst (pos (ps ! i)) / cs\<rfloor> - \<lfloor>fst q / cs\<rfloor>\<bar> \<le> 1 \<and>
                           \<bar>\<lfloor>snd (pos (ps ! i)) / cs\<rfloor> - \<lfloor>snd q / cs\<rfloor>\<bar> \<le> 1}"
    proof (cases "i < length ps")
      case True
      have "i \<in> set ?ns \<longleftrightarrow> i < length ps \<and>
         py_int (fst (pos (ps ! i)) / cs) - ?cx \<in> {- 1, 0, 1} \<and>
         py_int (snd (pos (ps ! i)) / cs) - ?cy \<in> {- 1, 0, 1}"
        by (rule mem)
      also have "\<dots> \<longleftrightarrow> i < length ps \<and>
           \<bar>\<lfloor>fst (pos (ps ! i)) / cs\<rfloor> - \<lfloor>fst q / cs\<rfloor>\<bar> \<le> 1 \<and>
           \<bar>\<lfloor>snd (pos (ps ! i)) / cs\<rfloor> - \<lfloor>snd q / cs\<rfloor>\<bar> \<le> 1"
        by (simp only: p [OF True] q adjacent_abs)
      finally show ?thesis by (simp only: mem_Collect_eq)
    next
      case False
      have "i \<in> set ?ns \<longleftrightarrow> i < length ps \<and>
         py_int (fst (pos (ps ! i)) / cs) - ?cx \<in> {- 1, 0, 1} \<and>
         py_int (snd (pos (ps ! i)) / cs) - ?cy \<in> {- 1, 0, 1}"
        by (rule mem)
      with False show ?thesis by (simp only: mem_Collect_eq simp_thms)
    qed
  qed
  show ?thesis
  proof (intro exI conjI allI impI)
    show "SpatialGrid_update cs ps = Some g" by (rule g(1))
    show "get_neighbors cs g q = Some ?ns" by (rule gn)
    show "set (cell_entries g c) =
      {i. i < length ps \<and> (py_int (fst (pos (ps ! i)) / cs), py_int (snd (pos (ps ! i)) / cs)) = c}" for c
      by (rule ent)
    show "set ?ns = (\<Union>dx\<in>{- 1, 0, 1}. \<Union>dy\<in>{- 1, 0, 1}. set (cell_entries g (?cx + dx, ?cy + dy)))"
      by (rule block)
    show "set ?ns = {i. i < length ps \<and>
                        py_int (fst (pos (ps ! i)) / cs) - ?cx \<in> {- 1, 0, 1} \<and>
                        py_int (snd (pos (ps ! i)) / cs) - ?cy \<in> {- 1, 0, 1}}"
      by (rule char)
    show "i \<in> set ?ns"
      if "\<forall>p\<in>set ps. 0 \<le> fst (pos p) \<and> 0 \<le> snd (pos p)" "i < length ps"
         "norm2 (vsub (pos (ps ! i)) q) < cs" for i
      using that by (rule sup)
    show "set ?ns = {i. i < length ps \<and>
                           \<bar>\<lfloor>fst (pos (ps ! i)) / cs\<rfloor> - \<lfloor>fst q / cs\<rfloor>\<bar> \<le> 1 \<and>
                           \<bar>\<lfloor>snd (pos (ps ! i)) / cs\<rfloor> - \<lfloor>snd q / cs\<rfloor>\<bar> \<le> 1}"
      if "(\<forall>p\<in>set ps. 0 \<le> fst (pos p) \<and> 0 \<le> snd (pos p)) \<and> 0 \<le> fst q \<and> 0 \<le> snd q"
      using that by (rule fl)
  qed
qed

text \<open>
  The claim as stated fails for a query position with a negative coordinate: at
  \<open>(- 10, 5)\<close> with cell size 30 the cell \<open>\<lfloor>position / cell_size\<rfloor>\<close> is \<open>(- 1, 0)\<close>, whose block
  spans the columns \<open>- 2\<close> to \<open>0\<close>, but \<^verbatim>\<open>int()\<close> gives the cell \<open>(0, 0)\<close> and the particle
  at \<open>(35, 5)\<close>, in column \<open>1\<close> and at distance 45, is returned.
\<close>

theorem get_neighbors_counterexample:
  "SpatialGrid_update 30 [particle_at 35 5] = Some [(1, 0) \<mapsto> [0]] \<and>
   get_neighbors 30 [(1, 0) \<mapsto> [0]] (- 10, 5) = Some [0] \<and>
   \<not> \<bar>\<lfloor>35 / 30 :: real\<rfloor> - \<lfloor>- 10 / 30 :: real\<rfloor>\<bar> \<le> 1 \<and>
   \<not> norm2 (vsub (35, 5) (- 10, 5)) < 30"
  by (simp add: SpatialGrid_update_def get_neighbors_def cell_of_def fdiv_def py_int_def
      particle_at_def cell_entries_def norm2_def vsub_def hypot_def trunc_minus_third)

theorem get_neighbors_block_superset_witness:
  "\<exists>g ns. SpatialGrid_update 30 [particle_at 10 10, particle_at 35 10, particle_at 100 100] = Some g \<and>
          get_neighbors 30 g (29, 10) = Some ns \<and> 0 \<in> set ns \<and> 1 \<in> set ns \<and> 2 \<notin> set ns"
proof -
  let ?ps = "[particle_at 10 10, particle_at 35 10, particle_at 100 100]"
  have h: "(0::real) < 30" by simp
  have nonneg: "\<forall>p\<in>set ?ps. 0 \<le> fst (pos p) \<and> 0 \<le> snd (pos p)"
    by (simp add: particle_at_def)
  have nonneg_q: "(\<forall>p\<in>set ?ps. 0 \<le> fst (pos p) \<and> 0 \<le> snd (pos p)) \<and>
      0 \<le> fst (29 :: real, 10 :: real) \<and> 0 \<le> snd (29 :: real, 10 :: real)"
    using nonneg by simp
  have d: "norm2 (vsub (pos (?ps ! 1)) (29, 10)) < 30"
    by (simp add: particle_at_def norm2_def vsub_def hypot_def)
  from get_neighbors_block_superset [OF h, of ?ps "(29, 10)"] show ?thesis
  proof (elim exE conjE)
    fix g ns
    assume 1: "SpatialGrid_update 30 ?ps = Some g"
      and 2: "get_neighbors 30 g (29, 10) = Some ns"
      and sup: "(\<forall>p\<in>set ?ps. 0 \<le> fst (pos p) \<and> 0 \<le> snd (pos p)) \<longrightarrow>
              (\<forall>i<length ?ps. norm2 (vsub (pos (?ps ! i)) (29, 10)) < 30 \<longrightarrow> i \<in> set ns)"
      and fl: "(\<forall>p\<in>set ?ps. 0 \<le> fst (pos p) \<and> 0 \<le> snd (pos p)) \<and>
              0 \<le> fst (29 :: real, 10 :: real) \<and> 0 \<le> snd (29 :: real, 10 :: real) \<longrightarrow>
              set ns = {i. i < length ?ps \<and>
                           \<bar>\<lfloor>fst (pos (?ps ! i)) / 30\<rfloor> - \<lfloor>fst (29 :: real, 10 :: real) / 30\<rfloor>\<bar> \<le> 1 \<and>
                           \<bar>\<lfloor>snd (pos (?ps ! i)) / 30\<rfloor> - \<lfloor>snd (29 :: real, 10 :: real) / 30\<rfloor>\<bar> \<le> 1}"
    from mp [OF sup nonneg]
    have "1 < length ?ps \<longrightarrow> norm2 (vsub (pos (?ps ! 1)) (29, 10)) < 30 \<longrightarrow> 1 \<in> set ns"
      by (rule spec)
    then have a: "1 \<in> set ns" using d by simp
    note s = mp [OF fl nonneg_q]
    have b: "0 \<in> set ns" unfolding s by (simp add: particle_at_def)
    have c: "2 \<notin> set ns" unfolding s by (simp add: particle_at_def)
    from 1 2 a b c show ?thesis by (intro exI conjI)
  qed
qed

section \<open>Kernel properties\<close>

text \<open>
  Claim C8. For \<open>r \<ge> h\<close> every kernel function of both SPH variants returns exactly \<open>0\<close>
  (no division is evaluated on that branch); for \<open>0 \<le> r < h\<close>, \<open>poly6\<close> returns
  \<open>315 / (64 \<pi> h^9) \<cdot> (h\<^sup>2 - r\<^sup>2)\<^sup>3\<close>, which is nonnegative.
\<close>

theorem kernels_cutoff_and_poly6:
  "(h \<le> r \<longrightarrow>
      poly6_kernel r h = Some 0 \<and> spiky_gradient r h = Some 0 \<and>
      viscosity_laplacian r h = Some 0 \<and> sph_kernel r h = Some 0 \<and>
      sph_kernel_derivative r h = Some 0 \<and> sph_viscosity_kernel r h = Some 0) \<and>
   (0 \<le> r \<and> r < h \<longrightarrow>
      poly6_kernel r h = Some (315 / (64 * pi * h ^ 9) * (h ^ 2 - r ^ 2) ^ 3) \<and>
      sph_kernel r h = Some (315 / (64 * pi * h ^ 9) * (h ^ 2 - r ^ 2) ^ 3) \<and>
      0 \<le> 315 / (64 * pi * h ^ 9) * (h ^ 2 - r ^ 2) ^ 3)"
proof (intro conjI impI)
  assume "h \<le> r"
  then have nlt: "\<not> r < h" by simp
  show "poly6_kernel r h = Some 0" using nlt by (simp add: poly6_kernel_def)
  show "spiky_gradient r h = Some 0" using nlt by (simp add: spiky_gradient_def)
  show "viscosity_laplacian r h = Some 0" using nlt by (simp add: viscosity_laplacian_def)
  show "sph_kernel r h = Some 0" using nlt by (simp add: sph_kernel_def)
  show "sph_kernel_derivative r h = Some 0" using nlt by (simp add: sph_kernel_derivative_def)
  show "sph_viscosity_kernel r h = Some 0" using nlt by (simp add: sph_viscosity_kernel_def)
next
  assume a: "0 \<le> r \<and> r < h"
  then have hpos: "0 < h" by linarith
  then have nz: "64 * pi * h ^ 9 \<noteq> 0" by simp
  show "poly6_kernel r h = Some (315 / (64 * pi * h ^ 9) * (h ^ 2 - r ^ 2) ^ 3)"
    using a nz by (simp add: poly6_kernel_def fdiv_Some)
  show "sph_kernel r h = Some (315 / (64 * pi * h ^ 9) * (h ^ 2 - r ^ 2) ^ 3)"
    using a nz by (simp add: sph_kernel_def fdiv_Some)
  have "r ^ 2 \<le> h ^ 2" using a by (simp add: power_mono)
  then have "0 \<le> (h ^ 2 - r ^ 2) ^ 3" by simp
  moreover have "0 \<le> 315 / (64 * pi * h ^ 9)" using hpos by simp
  ultimately show "0 \<le> 315 / (64 * pi * h ^ 9) * (h ^ 2 - r ^ 2) ^ 3" by simp
qed

theorem kernels_cutoff_and_poly6_witness:
  "poly6_kernel 30 30 = Some 0 \<and> spiky_gradient 30 30 = Some 0 \<and>
   viscosity_laplacian 30 30 = Some 0 \<and> sph_kernel 30 30 = Some 0 \<and>
   sph_kernel_derivative 30 30 = Some 0 \<and> sph_viscosity_kernel 30 30 = Some 0 \<and>
   poly6_kernel 0 30 = Some (315 / (64 * pi * 30 ^ 9) * (30 ^ 2 - 0 ^ 2) ^ 3) \<and>
   0 \<le> 315 / (64 * pi * (30::real) ^ 9) * (30 ^ 2 - 0 ^ 2) ^ 3"
  using kernels_cutoff_and_poly6 [where r = 30 and h = 30]
    kernels_cutoff_and_poly6 [where r = 0 and h = 30] by simp

section \<open>Resizing the domain\<close>

lemma clamp_min_max:
  "2 * r \<le> (d::real) \<Longrightarrow> in_range r (d - r) (min (max v r) (d - r))"
  "in_range r (d - r) v \<Longrightarrow> min (max v r) (d - r) = v"
  "2 * r \<le> (d::real) \<Longrightarrow> in_range r (d - r) (max r (min v (d - r)))"
  "in_range r (d - r) v \<Longrightarrow> max r (min v (d - r)) = v"
  by (auto simp: in_range_def)

lemma clamp_exact:
  "2 * r \<le> (d::real) \<Longrightarrow> v < r \<Longrightarrow> min (max v r) (d - r) = r"
  "2 * r \<le> (d::real) \<Longrightarrow> d - r < v \<Longrightarrow> min (max v r) (d - r) = d - r"
  "2 * r \<le> (d::real) \<Longrightarrow> v < r \<Longrightarrow> max r (min v (d - r)) = r"
  "2 * r \<le> (d::real) \<Longrightarrow> d - r < v \<Longrightarrow> max r (min v (d - r)) = d - r"
  by auto

text \<open>
  Claim C6, amended. In \<^verbatim>\<open>combined.py\<close> and \<^verbatim>\<open>main-R1.py\<close> a resize sets the domain to the
  new dimensions and replaces every coordinate by its clamp, without touching a velocity:
  the new coordinate is \<open>min (max x radius) (dimension - radius)\<close> in \<^verbatim>\<open>combined.py\<close> and
  \<open>max radius (min x (dimension - radius))\<close> in \<^verbatim>\<open>main-R1.py\<close>. When the new dimension is at
  least twice the radius, the new coordinate lies in \<open>[radius, dimension - radius]\<close>, a
  coordinate below \<open>radius\<close> goes to \<open>radius\<close> and a coordinate above
  \<open>dimension - radius\<close> goes to \<open>dimension - radius\<close>; a coordinate already in that range
  is unchanged. In \<^verbatim>\<open>main-o1.py\<close> a resize to less than twice the radius on an axis is
  ignored, and any other resize multiplies every position by the ratio of the new to the
  old dimension, again without touching a velocity.
\<close>

theorem resize_behaviour:
  "(let s' = on_resize (nw, nh) s in
      width s' = nw \<and> height s' = nh \<and> length (particles s') = length (particles s) \<and>
      (\<forall>i<length (particles s).
         vel (particles s' ! i) = vel (particles s ! i) \<and>
         fst (pos (particles s' ! i)) =
           min (max (fst (pos (particles s ! i))) PARTICLE_RADIUS) (nw - PARTICLE_RADIUS) \<and>
         snd (pos (particles s' ! i)) =
           min (max (snd (pos (particles s ! i))) PARTICLE_RADIUS) (nh - PARTICLE_RADIUS) \<and>
         (2 * PARTICLE_RADIUS \<le> nw \<longrightarrow>
            in_range PARTICLE_RADIUS (nw - PARTICLE_RADIUS) (fst (pos (particles s' ! i))) \<and>
            (fst (pos (particles s ! i)) < PARTICLE_RADIUS \<longrightarrow>
               fst (pos (particles s' ! i)) = PARTICLE_RADIUS) \<and>
            (nw - PARTICLE_RADIUS < fst (pos (particles s ! i)) \<longrightarrow>
               fst (pos (particles s' ! i)) = nw - PARTICLE_RADIUS)) \<and>
         (2 * PARTICLE_RADIUS \<le> nh \<longrightarrow>
            in_range PARTICLE_RADIUS (nh - PARTICLE_RADIUS) (snd (pos (particles s' ! i))) \<and>
            (snd (pos (particles s ! i)) < PARTICLE_RADIUS \<longrightarrow>
               snd (pos (particles s' ! i)) = PARTICLE_RADIUS) \<and>
            (nh - PARTICLE_RADIUS < snd (pos (particles s ! i)) \<longrightarrow>
               snd (pos (particles s' ! i)) = nh - PARTICLE_RADIUS)) \<and>
         (in_range PARTICLE_RADIUS (nw - PARTICLE_RADIUS) (fst (pos (particles s ! i))) \<longrightarrow>
            fst (pos (particles s' ! i)) = fst (pos (particles s ! i))) \<and>
         (in_range PARTICLE_RADIUS (nh - PARTICLE_RADIUS) (snd (pos (particles s ! i))) \<longrightarrow>
            snd (pos (particles s' ! i)) = snd (pos (particles s ! i))))) \<and>
   (case resize_R1 nw nh ps of (w', h', ps') \<Rightarrow>
      w' = nw \<and> h' = nh \<and> length ps' = length ps \<and>
      (\<forall>i<length ps.
         p_vx (ps' ! i) = p_vx (ps ! i) \<and> p_vy (ps' ! i) = p_vy (ps ! i) \<and>
         p_x (ps' ! i) = max PARTICLE_RADIUS_R1 (min (p_x (ps ! i)) (nw - PARTICLE_RADIUS_R1)) \<and>
         p_y (ps' ! i) = max PARTICLE_RADIUS_R1 (min (p_y (ps ! i)) (nh - PARTICLE_RADIUS_R1)) \<and>
         (2 * PARTICLE_RADIUS_R1 \<le> nw \<longrightarrow>
            in_range PARTICLE_RADIUS_R1 (nw - PARTICLE_RADIUS_R1) (p_x (ps' ! i)) \<and>
            (p_x (ps ! i) < PARTICLE_RADIUS_R1 \<longrightarrow> p_x (ps' ! i) = PARTICLE_RADIUS_R1) \<and>
            (nw - PARTICLE_RADIUS_R1 < p_x (ps ! i) \<longrightarrow>
               p_x (ps' ! i) = nw - PARTICLE_RADIUS_R1)) \<and>
         (2 * PARTICLE_RADIUS_R1 \<le> nh \<longrightarrow>
            in_range PARTICLE_RADIUS_R1 (nh - PARTICLE_RADIUS_R1) (p_y (ps' ! i)) \<and>
            (p_y (ps ! i) < PARTICLE_RADIUS_R1 \<longrightarrow> p_y (ps' ! i) = PARTICLE_RADIUS_R1) \<and>
            (nh - PARTICLE_RADIUS_R1 < p_y (ps ! i) \<longrightarrow>
               p_y (ps' ! i) = nh - PARTICLE_RADIUS_R1)) \<and>
         (in_range PARTICLE_RADIUS_R1 (nw - PARTICLE_RADIUS_R1) (p_x (ps ! i)) \<longrightarrow>
            p_x (ps' ! i) = p_x (ps ! i)) \<and>
         (in_range PARTICLE_RADIUS_R1 (nh - PARTICLE_RADIUS_R1) (p_y (ps ! i)) \<longrightarrow>
            p_y (ps' ! i) = p_y (ps ! i)))) \<and>
   (cw \<noteq> 0 \<and> ch \<noteq> 0 \<longrightarrow>
      resize_o1 nw nh (cw, ch, balls) =
        Some (if nw < 2 * BALL_RADIUS \<or> nh < 2 * BALL_RADIUS then (cw, ch, balls)
              else (nw, nh, map (\<lambda>b. b\<lparr>ball_x := ball_x b * (nw / cw),
                                         ball_y := ball_y b * (nh / ch)\<rparr>) balls)))"
proof (intro conjI)
  show "let s' = on_resize (nw, nh) s in
      width s' = nw \<and> height s' = nh \<and> length (particles s') = length (particles s) \<and>
      (\<forall>i<length (particles s).
         vel (particles s' ! i) = vel (particles s ! i) \<and>
         fst (pos (particles s' ! i)) =
           min (max (fst (pos (particles s ! i))) PARTICLE_RADIUS) (nw - PARTICLE_RADIUS) \<and>
         snd (pos (particles s' ! i)) =
           min (max (snd (pos (particles s ! i))) PARTICLE_RADIUS) (nh - PARTICLE_RADIUS) \<and>
         (2 * PARTICLE_RADIUS \<le> nw \<longrightarrow>
            in_range PARTICLE_RADIUS (nw - PARTICLE_RADIUS) (fst (pos (particles s' ! i))) \<and>
            (fst (pos (particles s ! i)) < PARTICLE_RADIUS \<longrightarrow>
               fst (pos (particles s' ! i)) = PARTICLE_RADIUS) \<and>
            (nw - PARTICLE_RADIUS < fst (pos (particles s ! i)) \<longrightarrow>
               fst (pos (particles s' ! i)) = nw - PARTICLE_RADIUS)) \<and>
         (2 * PARTICLE_RADIUS \<le> nh \<longrightarrow>
            in_range PARTICLE_RADIUS (nh - PARTICLE_RADIUS) (snd (pos (particles s' ! i))) \<and>
            (snd (pos (particles s ! i)) < PARTICLE_RADIUS \<longrightarrow>
               snd (pos (particles s' ! i)) = PARTICLE_RADIUS) \<and>
            (nh - PARTICLE_RADIUS < snd (pos (particles s ! i)) \<longrightarrow>
               snd (pos (particles s' ! i)) = nh - PARTICLE_RADIUS)) \<and>
         (in_range PARTICLE_RADIUS (nw - PARTICLE_RADIUS) (fst (pos (particles s ! i))) \<longrightarrow>
            fst (pos (particles s' ! i)) = fst (pos (particles s ! i))) \<and>
         (in_range PARTICLE_RADIUS (nh - PARTICLE_RADIUS) (snd (pos (particles s ! i))) \<longrightarrow>
            snd (pos (particles s' ! i)) = snd (pos (particles s ! i))))"
    by (simp add: on_resize_def Let_def clamp_min_max clamp_exact)
  show "case resize_R1 nw nh ps of (w', h', ps') \<Rightarrow>
      w' = nw \<and> h' = nh \<and> length ps' = length ps \<and>
      (\<forall>i<length ps.
         p_vx (ps' ! i) = p_vx (ps ! i) \<and> p_vy (ps' ! i) = p_vy (ps ! i) \<and>
         p_x (ps' ! i) = max PARTICLE_RADIUS_R1 (min (p_x (ps ! i)) (nw - PARTICLE_RADIUS_R1)) \<and>
         p_y (ps' ! i) = max PARTICLE_RADIUS_R1 (min (p_y (ps ! i)) (nh - PARTICLE_RADIUS_R1)) \<and>
         (2 * PARTICLE_RADIUS_R1 \<le> nw \<longrightarrow>
            in_range PARTICLE_RADIUS_R1 (nw - PARTICLE_RADIUS_R1) (p_x (ps' ! i)) \<and>
            (p_x (ps ! i) < PARTICLE_RADIUS_R1 \<longrightarrow> p_x (ps' ! i) = PARTICLE_RADIUS_R1) \<and>
            (nw - PARTICLE_RADIUS_R1 < p_x (ps ! i) \<longrightarrow>
               p_x (ps' ! i) = nw - PARTICLE_RADIUS_R1)) \<and>
         (2 * PARTICLE_RADIUS_R1 \<le> nh \<longrightarrow>
            in_range PARTICLE_RADIUS_R1 (nh - PARTICLE_RADIUS_R1) (p_y (ps' ! i)) \<and>
            (p_y (ps ! i) < PARTICLE_RADIUS_R1 \<longrightarrow> p_y (ps' ! i) = PARTICLE_RADIUS_R1) \<and>
            (nh - PARTICLE_RADIUS_R1 < p_y (ps ! i) \<longrightarrow>
               p_y (ps' ! i) = nh - PARTICLE_RADIUS_R1)) \<and>
         (in_range PARTICLE_RADIUS_R1 (nw - PARTICLE_RADIUS_R1) (p_x (ps ! i)) \<longrightarrow>
            p_x (ps' ! i) = p_x (ps ! i)) \<and>
         (in_range PARTICLE_RADIUS_R1 (nh - PARTICLE_RADIUS_R1) (p_y (ps ! i)) \<longrightarrow>
            p_y (ps' ! i) = p_y (ps ! i)))"
    by (simp add: resize_R1_def clamp_min_max clamp_exact)
  show "cw \<noteq> 0 \<and> ch \<noteq> 0 \<longrightarrow>
      resize_o1 nw nh (cw, ch, balls) =
        Some (if nw < 2 * BALL_RADIUS \<or> nh < 2 * BALL_RADIUS then (cw, ch, balls)
              else (nw, nh, map (\<lambda>b. b\<lparr>ball_x := ball_x b * (nw / cw),
                                         ball_y := ball_y b * (nh / ch)\<rparr>) balls))"
    by (simp add: resize_o1_def fdiv_Some)
qed

text \<open>
  The claim as stated fails: \<^verbatim>\<open>main-o1.py\<close> moves a ball that is in bounds for the new
  window, and in \<^verbatim>\<open>combined.py\<close> a window narrower than two radii leaves the particle
  outside \<open>[radius, width - radius]\<close>.
\<close>

theorem resize_counterexample:
  "resize_o1 400 600 (800, 600, [ball_at 100 100]) = Some (400, 600, [ball_at 50 100]) \<and>
   in_range BALL_RADIUS (400 - BALL_RADIUS) 100 \<and>
   fst (pos (particles (on_resize (10, 600)
          \<lparr>width = 800, height = 600, particles = [particle_at 100 100]\<rparr>) ! 0)) = 2 \<and>
   \<not> in_range PARTICLE_RADIUS (10 - PARTICLE_RADIUS) 2"
  by (simp add: resize_o1_def fdiv_def BALL_RADIUS_def ball_at_def in_range_def
      on_resize_def particle_at_def PARTICLE_RADIUS_def)

theorem resize_behaviour_witness:
  "snd (pos (particles (on_resize (400, 300)
      \<lparr>width = 800, height = 600, particles = [particle_at 100 500]\<rparr>) ! 0)) = 292 \<and>
   fst (pos (particles (on_resize (400, 300)
      \<lparr>width = 800, height = 600, particles = [particle_at 100 500]\<rparr>) ! 0)) = 100 \<and>
   vel (particles (on_resize (400, 300)
      \<lparr>width = 800, height = 600, particles = [particle_at 100 500]\<rparr>) ! 0) = (0, 0) \<and>
   p_x (snd (snd (resize_R1 400 300 [particle_R1_at 500 2])) ! 0) = 392 \<and>
   p_y (snd (snd (resize_R1 400 300 [particle_R1_at 500 2])) ! 0) = 8 \<and>
   resize_o1 400 300 (800, 600, [ball_at 100 100]) = Some (400, 300, [ball_at 50 50])"
proof -
  let ?s = "\<lparr>width = 800, height = 600, particles = [particle_at 100 500]\<rparr>"
  have a: "in_range PARTICLE_RADIUS (400 - PARTICLE_RADIUS) (fst (pos (particles ?s ! 0)))"
    "300 - PARTICLE_RADIUS < snd (pos (particles ?s ! 0))"
    by (simp_all add: in_range_def PARTICLE_RADIUS_def particle_at_def)
  have b: "2 * PARTICLE_RADIUS \<le> 300" "2 * PARTICLE_RADIUS_R1 \<le> 400" "2 * PARTICLE_RADIUS_R1 \<le> 300"
    by (simp_all add: PARTICLE_RADIUS_def PARTICLE_RADIUS_R1_def)
  have e: "400 - PARTICLE_RADIUS_R1 < p_x ([particle_R1_at 500 2] ! 0)"
    "p_y ([particle_R1_at 500 2] ! 0) < PARTICLE_RADIUS_R1"
    by (simp_all add: PARTICLE_RADIUS_R1_def particle_R1_at_def)
  have c: "(800::real) \<noteq> 0 \<and> (600::real) \<noteq> 0" by simp
  have d: "\<not> ((400::real) < 2 * BALL_RADIUS \<or> (300::real) < 2 * BALL_RADIUS)"
    by (simp add: BALL_RADIUS_def)
  have v: "vel (particle_at 100 500) = (0, 0)" "fst (pos (particle_at 100 500)) = 100"
    by (simp_all add: particle_at_def)
  have r: "300 - PARTICLE_RADIUS = 292" "400 - PARTICLE_RADIUS_R1 = 392" "PARTICLE_RADIUS_R1 = 8"
    by (simp_all add: PARTICLE_RADIUS_def PARTICLE_RADIUS_R1_def)
  from resize_behaviour [of 400 300 ?s "[particle_R1_at 500 2]" 800 600 "[ball_at 100 100]"]
  show ?thesis using a b c d e v r
    by (simp add: Let_def split_beta ball_at_def)
qed

section \<open>Pairwise collisions\<close>

lemma hypot_axis: "hypot a 0 = \<bar>a\<bar>" "hypot 0 a = \<bar>a\<bar>"
  by (simp_all add: hypot_def)

lemma upt_2: "[0 ..< 2] = [0, Suc 0]" "[Suc 0 ..< 2] = [Suc 0]" "[Suc (Suc 0) ..< 2] = []"
  by (simp_all add: upt_rec)

text \<open>
  Claim C5 at a separating pair of \<^verbatim>\<open>main-R1.py\<close>: two overlapping particles that move
  apart along the line joining them have their velocities exchanged by
  \<^verbatim>\<open>handle_collisions\<close>, which applies its impulse without looking at the closing speed.
\<close>

theorem handle_collisions_separating_pair:
  "handle_collisions [(particle_R1_at 100 100)\<lparr>p_vx := - 1\<rparr>, (particle_R1_at 110 100)\<lparr>p_vx := 1\<rparr>]
     = Some [(particle_R1_at 97 100)\<lparr>p_vx := 1\<rparr>, (particle_R1_at 113 100)\<lparr>p_vx := - 1\<rparr>]"
  by (simp add: handle_collisions_def collide_pair_def lookup_def upt_2 particle_R1_at_def
      hypot_axis PARTICLE_RADIUS_R1_def EPSILON_def fdiv_def Let_def)

text \<open>
  The sibling \<^verbatim>\<open>handle_ball_collisions\<close> of \<^verbatim>\<open>main-o1.py\<close> does test the closing speed:
  an overlapping pair that is not approaching keeps its velocities, and an approaching
  pair receives the impulse \<open>- (1 + ELASTICITY) * sep_speed / 2\<close> along the normal.
\<close>

lemma collide_balls_velocities:
  assumes ij: "i < length balls" "j < length balls" "i \<noteq> j"
  defines "dx \<equiv> ball_x (balls ! j) - ball_x (balls ! i)"
    and "dy \<equiv> ball_y (balls ! j) - ball_y (balls ! i)"
  defines "dst \<equiv> (if dx * dx + dy * dy \<noteq> 0 then sqrt (dx * dx + dy * dy) else 1 / 10000)"
  defines "sep_speed \<equiv> (ball_vx (balls ! j) - ball_vx (balls ! i)) * (dx / dst)
                        + (ball_vy (balls ! j) - ball_vy (balls ! i)) * (dy / dst)"
  defines "imp \<equiv> - (1 + ELASTICITY) * sep_speed / (1 / 1 + 1 / 1)"
  assumes overlap: "dx * dx + dy * dy < (2 * BALL_RADIUS) ^ 2"
  shows "\<exists>balls'. collide_balls i j balls = Some balls' \<and> length balls' = length balls \<and>
           (if sep_speed < 0
            then ball_vx (balls' ! i) = ball_vx (balls ! i) - imp * (dx / dst) \<and>
                 ball_vy (balls' ! i) = ball_vy (balls ! i) - imp * (dy / dst) \<and>
                 ball_vx (balls' ! j) = ball_vx (balls ! j) + imp * (dx / dst) \<and>
                 ball_vy (balls' ! j) = ball_vy (balls ! j) + imp * (dy / dst)
            else ball_vx (balls' ! i) = ball_vx (balls ! i) \<and>
                 ball_vy (balls' ! i) = ball_vy (balls ! i) \<and>
                 ball_vx (balls' ! j) = ball_vx (balls ! j) \<and>
                 ball_vy (balls' ! j) = ball_vy (balls ! j))"
proof (cases "dx * dx + dy * dy = 0")
  case True
  then show ?thesis
    using ij overlap
    unfolding collide_balls_def lookup_def imp_def sep_speed_def dst_def dx_def dy_def
    by (simp add: fdiv_def Let_def)
next
  case False
  then have "sqrt (dx * dx + dy * dy) \<noteq> 0" by simp
  with False show ?thesis
    using ij overlap
    unfolding collide_balls_def lookup_def imp_def sep_speed_def dst_def dx_def dy_def
    by (simp add: fdiv_def Let_def)
qed

section \<open>Velocity damping\<close>

lemma hypot_scale: "hypot (a * c) (b * c) = \<bar>c\<bar> * hypot a b"
proof -
  have "(a * c) * (a * c) + (b * c) * (b * c) = (c * c) * (a * a + b * b)"
    by (simp add: algebra_simps)
  then show ?thesis by (simp add: hypot_def real_sqrt_mult)
qed

lemma hypot_pos: "a \<noteq> 0 \<or> b \<noteq> 0 \<Longrightarrow> 0 < hypot a b"
  by (auto simp: hypot_def sum_squares_gt_zero_iff)

lemma frame_R1_stages:
  "frame_R1 dt w h ps = Some ps' \<longleftrightarrow>
     (\<exists>ps1 ps2 ps3 ps4.
        compute_density_pressure ps (find_neighbors ps SMOOTHING_RADIUS_R1) SMOOTHING_RADIUS_R1
          = Some ps1 \<and>
        compute_forces ps1 (find_neighbors ps SMOOTHING_RADIUS_R1) SMOOTHING_RADIUS_R1 = Some ps2 \<and>
        for_each (\<lambda>p. apply_force 0 (GRAVITY_R1 * p_mass p) p) ps2 = Some ps3 \<and>
        handle_collisions (map (update_particle_R1 dt w h) ps3) = Some ps4 \<and>
        ps' = map global_damping ps4)"
  unfolding frame_R1_def Let_def bind_eq_Some_conv by blast

lemma map_global_damping_nth:
  "ps' = map global_damping ps4 \<longleftrightarrow>
     length ps' = length ps4 \<and>
     (\<forall>i<length ps4.
        ps' ! i = (ps4 ! i)\<lparr>p_vx := p_vx (ps4 ! i) * (95 / 100),
                              p_vy := p_vy (ps4 ! i) * (95 / 100)\<rparr>)"
  by (auto simp: list_eq_iff_nth_eq global_damping_def DAMPING_R1_def)

lemma frame_R1_single:
  assumes "p_mass p \<noteq> 0"
  shows "frame_R1 dt w h [p] =
     Some [global_damping (update_particle_R1 dt w h
             (p\<lparr>p_density := REST_DENSITY_R1 * (1 / 10),
                p_pressure := PRESSURE_STIFFNESS_R1 * (REST_DENSITY_R1 * (1 / 10) - REST_DENSITY_R1),
                p_ay := p_ay p + GRAVITY_R1\<rparr>))]"
  using assms
  by (simp add: frame_R1_def find_neighbors_def compute_density_pressure_def
      density_step_R1_def compute_forces_def force_step_R1_def zero_forces_def apply_force_def
      handle_collisions_def lookup_def fdiv_def Let_def
      REST_DENSITY_R1_def SMOOTHING_RADIUS_R1_def)

lemma frame_o1_stages:
  "frame_o1 w h balls = Some balls' \<longleftrightarrow>
     (\<exists>balls1. handle_ball_collisions (map Ball_update balls) = Some balls1 \<and>
        balls' = handle_wall_collisions balls1 w h)"
  unfolding frame_o1_def bind_eq_Some_conv by blast

lemma frame_o1_single:
  "frame_o1 w h [b] = Some [wall_y h (wall_x w (Ball_update b))]"
  by (simp add: frame_o1_def handle_ball_collisions_def handle_wall_collisions_def Let_def)

lemma frame_R1_first_frame:
  "frame_R1 (16 / 1000) 800 600 [particle_R1_at 100 100]
     = Some [(particle_R1_at 100 100)\<lparr>p_y := 12524 / 125, p_vy := 57 / 5,
                                        p_density := 100, p_pressure := - 45000\<rparr>]"
proof -
  have m: "p_mass (particle_R1_at 100 100) \<noteq> 0" by (simp add: particle_R1_at_def)
  show ?thesis
    unfolding frame_R1_single [OF m]
    by (simp add: update_particle_R1_def integrate_R1_def bound_x_R1_def
      bound_y_R1_def global_damping_def particle_R1_at_def Let_def
      PARTICLE_RADIUS_R1_def REST_DENSITY_R1_def PRESSURE_STIFFNESS_R1_def GRAVITY_R1_def
      DAMPING_R1_def)
qed

text \<open>
  Claim C10, amended. A frame of \<^verbatim>\<open>main-R1.py\<close> runs the density pass, the force pass,
  gravity, the integration with the boundary and the collision handling, and then ends by
  multiplying both velocity components of every particle by 0.95, changing nothing else;
  a particle alone in the domain goes through the same multiplication. A frame of
  \<^verbatim>\<open>main-o1.py\<close> opens with the per-ball update, which multiplies both velocity components
  by 0.99 after gravity has been added, and the collision and wall handling follow it.
  Neither multiplication depends on neighbours, collisions or walls. The damping never
  increases the magnitude of a velocity: it strictly decreases the magnitude of a nonzero
  velocity and keeps a zero velocity at zero.
\<close>

theorem global_damping_every_frame:
  "(frame_R1 dt w h ps = Some ps' \<longleftrightarrow>
      (\<exists>ps1 ps2 ps3 ps4.
         compute_density_pressure ps (find_neighbors ps SMOOTHING_RADIUS_R1) SMOOTHING_RADIUS_R1
           = Some ps1 \<and>
         compute_forces ps1 (find_neighbors ps SMOOTHING_RADIUS_R1) SMOOTHING_RADIUS_R1 = Some ps2 \<and>
         for_each (\<lambda>p. apply_force 0 (GRAVITY_R1 * p_mass p) p) ps2 = Some ps3 \<and>
         handle_collisions (map (update_particle_R1 dt w h) ps3) = Some ps4 \<and>
         length ps' = length ps4 \<and>
         (\<forall>i<length ps4.
            ps' ! i = (ps4 ! i)\<lparr>p_vx := p_vx (ps4 ! i) * (95 / 100),
                                  p_vy := p_vy (ps4 ! i) * (95 / 100)\<rparr>))) \<and>
   (p_mass p \<noteq> 0 \<longrightarrow>
      (let q = update_particle_R1 dt w h
                 (p\<lparr>p_density := REST_DENSITY_R1 * (1 / 10),
                    p_pressure := PRESSURE_STIFFNESS_R1 * (REST_DENSITY_R1 * (1 / 10) - REST_DENSITY_R1),
                    p_ay := p_ay p + GRAVITY_R1\<rparr>)
       in frame_R1 dt w h [p] = Some [q\<lparr>p_vx := p_vx q * (95 / 100), p_vy := p_vy q * (95 / 100)\<rparr>])) \<and>
   global_damping p = p\<lparr>p_vx := p_vx p * (95 / 100), p_vy := p_vy p * (95 / 100)\<rparr> \<and>
   (frame_o1 w h balls = Some balls' \<longleftrightarrow>
      (\<exists>balls1. handle_ball_collisions (map Ball_update balls) = Some balls1 \<and>
         balls' = handle_wall_collisions balls1 w h)) \<and>
   frame_o1 w h [b] = Some [wall_y h (wall_x w (Ball_update b))] \<and>
   ball_vx (Ball_update b) = ball_vx b * (99 / 100) \<and>
   ball_vy (Ball_update b) = (ball_vy b + GRAVITY_o1) * (99 / 100) \<and>
   hypot (p_vx (global_damping p)) (p_vy (global_damping p)) \<le> hypot (p_vx p) (p_vy p) \<and>
   (p_vx p \<noteq> 0 \<or> p_vy p \<noteq> 0 \<longrightarrow>
      hypot (p_vx (global_damping p)) (p_vy (global_damping p)) < hypot (p_vx p) (p_vy p)) \<and>
   (p_vx p = 0 \<and> p_vy p = 0 \<longrightarrow>
      hypot (p_vx (global_damping p)) (p_vy (global_damping p)) = 0) \<and>
   (ball_vx b \<noteq> 0 \<longrightarrow> \<bar>ball_vx (Ball_update b)\<bar> < \<bar>ball_vx b\<bar>)"
proof -
  have e: "p_vx (global_damping p) = p_vx p * (95 / 100)"
    "p_vy (global_damping p) = p_vy p * (95 / 100)"
    by (simp_all add: global_damping_def DAMPING_R1_def)
  have sc: "hypot (p_vx (global_damping p)) (p_vy (global_damping p))
          = \<bar>95 / 100\<bar> * hypot (p_vx p) (p_vy p)"
    unfolding e by (rule hypot_scale)
  have nn: "0 \<le> hypot (p_vx p) (p_vy p)" by (simp add: hypot_def)
  show ?thesis
  proof (intro conjI impI)
    show "frame_R1 dt w h ps = Some ps' \<longleftrightarrow>
      (\<exists>ps1 ps2 ps3 ps4.
         compute_density_pressure ps (find_neighbors ps SMOOTHING_RADIUS_R1) SMOOTHING_RADIUS_R1
           = Some ps1 \<and>
         compute_forces ps1 (find_neighbors ps SMOOTHING_RADIUS_R1) SMOOTHING_RADIUS_R1 = Some ps2 \<and>
         for_each (\<lambda>p. apply_force 0 (GRAVITY_R1 * p_mass p) p) ps2 = Some ps3 \<and>
         handle_collisions (map (update_particle_R1 dt w h) ps3) = Some ps4 \<and>
         length ps' = length ps4 \<and>
         (\<forall>i<length ps4.
            ps' ! i = (ps4 ! i)\<lparr>p_vx := p_vx (ps4 ! i) * (95 / 100),
                                  p_vy := p_vy (ps4 ! i) * (95 / 100)\<rparr>))"
      unfolding frame_R1_stages map_global_damping_nth ..
    show "let q = update_particle_R1 dt w h
                 (p\<lparr>p_density := REST_DENSITY_R1 * (1 / 10),
                    p_pressure := PRESSURE_STIFFNESS_R1 * (REST_DENSITY_R1 * (1 / 10) - REST_DENSITY_R1),
                    p_ay := p_ay p + GRAVITY_R1\<rparr>)
       in frame_R1 dt w h [p] = Some [q\<lparr>p_vx := p_vx q * (95 / 100), p_vy := p_vy q * (95 / 100)\<rparr>]"
      if "p_mass p \<noteq> 0"
      unfolding frame_R1_single [OF that] by (simp add: Let_def global_damping_def DAMPING_R1_def)
    show "global_damping p = p\<lparr>p_vx := p_vx p * (95 / 100), p_vy := p_vy p * (95 / 100)\<rparr>"
      by (simp add: global_damping_def DAMPING_R1_def)
    show "frame_o1 w h balls = Some balls' \<longleftrightarrow>
      (\<exists>balls1. handle_ball_collisions (map Ball_update balls) = Some balls1 \<and>
         balls' = handle_wall_collisions balls1 w h)"
      by (rule frame_o1_stages)
    show "frame_o1 w h [b] = Some [wall_y h (wall_x w (Ball_update b))]"
      by (rule frame_o1_single)
    show "ball_vx (Ball_update b) = ball_vx b * (99 / 100)"
      "ball_vy (Ball_update b) = (ball_vy b + GRAVITY_o1) * (99 / 100)"
      by (simp_all add: Ball_update_def FRICTION_def Let_def)
    show "hypot (p_vx (global_damping p)) (p_vy (global_damping p)) \<le> hypot (p_vx p) (p_vy p)"
      unfolding sc using nn by simp
    show "hypot (p_vx (global_damping p)) (p_vy (global_damping p)) < hypot (p_vx p) (p_vy p)"
      if "p_vx p \<noteq> 0 \<or> p_vy p \<noteq> 0"
    proof -
      have pos: "0 < hypot (p_vx p) (p_vy p)" using that by (rule hypot_pos)
      show ?thesis unfolding sc using pos by simp
    qed
    show "hypot (p_vx (global_damping p)) (p_vy (global_damping p)) = 0"
      if "p_vx p = 0 \<and> p_vy p = 0"
      using that by (simp add: global_damping_def hypot_def)
    show "\<bar>ball_vx (Ball_update b)\<bar> < \<bar>ball_vx b\<bar>" if "ball_vx b \<noteq> 0"
      using that by (simp add: Ball_update_def FRICTION_def Let_def abs_mult)
  qed
qed

theorem global_damping_every_frame_witness:
  "frame_R1 (16 / 1000) 800 600 [particle_R1_at 100 100]
     = Some [(particle_R1_at 100 100)\<lparr>p_y := 12524 / 125, p_vy := 57 / 5,
                                        p_density := 100, p_pressure := - 45000\<rparr>] \<and>
   (\<exists>ps3 ps4. handle_collisions (map (update_particle_R1 (16 / 1000) 800 600) ps3) = Some ps4 \<and>
      p_vy (ps4 ! 0) * (95 / 100) = 57 / 5) \<and>
   hypot (p_vx (global_damping ((particle_R1_at 100 100)\<lparr>p_vx := 1\<rparr>)))
         (p_vy (global_damping ((particle_R1_at 100 100)\<lparr>p_vx := 1\<rparr>))) < hypot 1 0 \<and>
   hypot (p_vx (global_damping (particle_R1_at 100 100)))
         (p_vy (global_damping (particle_R1_at 100 100))) = 0 \<and>
   \<bar>ball_vx (Ball_update ((ball_at 100 100)\<lparr>ball_vx := 1\<rparr>))\<bar> < 1"
proof -
  let ?p0 = "particle_R1_at 100 100"
  let ?q0 = "(particle_R1_at 100 100)\<lparr>p_y := 12524 / 125, p_vy := 57 / 5,
                                        p_density := 100, p_pressure := - 45000\<rparr>"
  let ?p1 = "(particle_R1_at 100 100)\<lparr>p_vx := 1\<rparr>"
  let ?b = "(ball_at 100 100)\<lparr>ball_vx := 1\<rparr>"
  note t1 = global_damping_every_frame [where dt = "16 / 1000" and w = 800 and h = 600
      and ps = "[?p0]" and ps' = "[?q0]" and p = ?p1 and b = ?b]
  note t0 = global_damping_every_frame [where dt = "16 / 1000" and w = 800 and h = 600
      and ps = "[?p0]" and ps' = "[?q0]" and p = ?p0 and b = ?b]
  have v1: "p_vx ?p1 = 1" "p_vy ?p1 = 0" "p_vx ?p0 = 0" "p_vy ?p0 = 0" "ball_vx ?b = 1"
    by (simp_all add: particle_R1_at_def)
  have m: "p_mass ?p0 \<noteq> 0" by (simp add: particle_R1_at_def)
  have h1: "p_vx ?p1 \<noteq> 0 \<or> p_vy ?p1 \<noteq> 0" using v1 by simp
  have h0: "p_vx ?p0 = 0 \<and> p_vy ?p0 = 0" using v1 by simp
  have hb: "ball_vx ?b \<noteq> 0" using v1 by simp
  from mp [OF t0 [THEN conjunct2, THEN conjunct1] m]
  have a: "frame_R1 (16 / 1000) 800 600 [?p0] = Some [?q0]"
    by (simp add: update_particle_R1_def integrate_R1_def bound_x_R1_def
      bound_y_R1_def particle_R1_at_def Let_def
      PARTICLE_RADIUS_R1_def REST_DENSITY_R1_def PRESSURE_STIFFNESS_R1_def GRAVITY_R1_def)
  from iffD1 [OF t0 [THEN conjunct1] a] obtain ps3 ps4 where
    c: "handle_collisions (map (update_particle_R1 (16 / 1000) 800 600) ps3) = Some ps4"
    and l: "length [?q0] = length ps4"
    and n: "\<forall>i<length ps4. [?q0] ! i = (ps4 ! i)\<lparr>p_vx := p_vx (ps4 ! i) * (95 / 100),
                                  p_vy := p_vy (ps4 ! i) * (95 / 100)\<rparr>"
    by blast
  from l have "length ps4 = Suc 0" by simp
  then have "0 < length ps4" by simp
  with n have "[?q0] ! 0 = (ps4 ! 0)\<lparr>p_vx := p_vx (ps4 ! 0) * (95 / 100),
                                  p_vy := p_vy (ps4 ! 0) * (95 / 100)\<rparr>"
    by blast
  then have "p_vy ([?q0] ! 0) = p_vy ((ps4 ! 0)\<lparr>p_vx := p_vx (ps4 ! 0) * (95 / 100),
                                  p_vy := p_vy (ps4 ! 0) * (95 / 100)\<rparr>)"
    by (rule arg_cong)
  then have "p_vy (ps4 ! 0) * (95 / 100) = 57 / 5" by simp
  with c have b: "\<exists>ps3 ps4. handle_collisions (map (update_particle_R1 (16 / 1000) 800 600) ps3) = Some ps4 \<and>
      p_vy (ps4 ! 0) * (95 / 100) = 57 / 5"
    by blast
  from t1 have "p_vx ?p1 \<noteq> 0 \<or> p_vy ?p1 \<noteq> 0 \<longrightarrow>
      hypot (p_vx (global_damping ?p1)) (p_vy (global_damping ?p1)) < hypot (p_vx ?p1) (p_vy ?p1)"
    by blast
  then have "hypot (p_vx (global_damping ?p1)) (p_vy (global_damping ?p1))
      < hypot (p_vx ?p1) (p_vy ?p1)"
    using h1 by (rule mp)
  then have c1: "hypot (p_vx (global_damping ?p1)) (p_vy (global_damping ?p1)) < hypot 1 0"
    by (simp only: v1)
  from t0 have "p_vx ?p0 = 0 \<and> p_vy ?p0 = 0 \<longrightarrow>
      hypot (p_vx (global_damping ?p0)) (p_vy (global_damping ?p0)) = 0"
    by blast
  then have c0: "hypot (p_vx (global_damping ?p0)) (p_vy (global_damping ?p0)) = 0"
    using h0 by (rule mp)
  from t1 have "ball_vx ?b \<noteq> 0 \<longrightarrow> \<bar>ball_vx (Ball_update ?b)\<bar> < \<bar>ball_vx ?b\<bar>"
    by blast
  then have "\<bar>ball_vx (Ball_update ?b)\<bar> < \<bar>ball_vx ?b\<bar>" using hb by (rule mp)
  then have d: "\<bar>ball_vx (Ball_update ?b)\<bar> < 1" by (simp only: v1 abs_one)
  from a b c1 c0 d show ?thesis by (intro conjI)
qed

text \<open>
  The claim as stated fails for a velocity of zero. Every particle of \<^verbatim>\<open>main-R1.py\<close> starts
  at rest; in a frame of 16 milliseconds a particle alone in the domain is accelerated by
  gravity only, which is vertical, so no force acts on its horizontal velocity, and that
  velocity is 0 before and after the frame: it is multiplied by 0.95 and its magnitude
  does not strictly decrease.
\<close>

theorem global_damping_counterexample:
  "frame_R1 (16 / 1000) 800 600 [particle_R1_at 100 100]
     = Some [(particle_R1_at 100 100)\<lparr>p_y := 12524 / 125, p_vy := 57 / 5,
                                        p_density := 100, p_pressure := - 45000\<rparr>] \<and>
   p_vx ((particle_R1_at 100 100)\<lparr>p_y := 12524 / 125, p_vy := 57 / 5,
                                   p_density := 100, p_pressure := - 45000\<rparr>)
     = p_vx (particle_R1_at 100 100) * (95 / 100) \<and>
   \<not> \<bar>p_vx ((particle_R1_at 100 100)\<lparr>p_y := 12524 / 125, p_vy := 57 / 5,
                                      p_density := 100, p_pressure := - 45000\<rparr>)\<bar>
       < \<bar>p_vx (particle_R1_at 100 100)\<bar> \<and>
   \<not> hypot (p_vx (global_damping (particle_R1_at 100 100)))
            (p_vy (global_damping (particle_R1_at 100 100)))
       < hypot (p_vx (particle_R1_at 100 100)) (p_vy (particle_R1_at 100 100))"
  using frame_R1_first_frame by (simp add: particle_R1_at_def global_damping_def hypot_def)

section \<open>Densities and forces of combined.py\<close>

lemma SMOOTHING_RADIUS_nz: "SMOOTHING_RADIUS \<noteq> 0"
  by (simp add: SMOOTHING_RADIUS_def)

lemma get_neighbors_block_ids: "get_neighbors SMOOTHING_RADIUS g q = Some (block_ids g q)"
  unfolding block_ids_def by (rule get_neighbors_Some [OF SMOOTHING_RADIUS_nz])

lemma in_block_ids:
  "i \<in> set (block_ids g q) \<longleftrightarrow>
     (\<exists>dx\<in>{- 1, 0, 1}. \<exists>dy\<in>{- 1, 0, 1}.
        i \<in> set (cell_entries g (fst (cell_index SMOOTHING_RADIUS q) + dx,
                                 snd (cell_index SMOOTHING_RADIUS q) + dy)))"
  unfolding block_ids_def by (rule in_block)

lemma grid_entries:
  assumes "SpatialGrid_update SMOOTHING_RADIUS ps = Some g"
  shows "set (cell_entries g c) = {i. i < length ps \<and> cell_index SMOOTHING_RADIUS (pos (ps ! i)) = c}"
proof -
  from SpatialGrid_update_entries [OF SMOOTHING_RADIUS_nz, of ps] obtain g' where
    g': "SpatialGrid_update SMOOTHING_RADIUS ps = Some g'" and
    ent: "\<And>c. cell_entries g' c
             = filter (\<lambda>i. cell_index SMOOTHING_RADIUS (pos (ps ! i)) = c) [0 ..< length ps]"
    by blast
  have "g' = g" using g' assms by simp
  then show ?thesis using ent [of c] by auto
qed

lemma block_ids_bound:
  assumes "SpatialGrid_update SMOOTHING_RADIUS ps = Some g" and "j \<in> set (block_ids g q)"
  shows "j < length ps"
proof -
  from assms(2) obtain c where "j \<in> set (cell_entries g c)"
    unfolding in_block_ids by blast
  then show ?thesis unfolding grid_entries [OF assms(1)] by simp
qed

lemma self_in_block_ids:
  assumes "SpatialGrid_update SMOOTHING_RADIUS ps = Some g" and "i < length ps"
  shows "i \<in> set (block_ids g (pos (ps ! i)))"
proof -
  let ?c = "cell_index SMOOTHING_RADIUS (pos (ps ! i))"
  have "i \<in> set (cell_entries g ?c)"
    unfolding grid_entries [OF assms(1)] using assms(2) by simp
  then have "i \<in> set (cell_entries g (fst ?c + 0, snd ?c + 0))" by simp
  moreover have "(0::int) \<in> {- 1, 0, 1}" by simp
  ultimately show ?thesis unfolding in_block_ids by blast
qed

lemma poly6_kernel_value: "poly6_kernel r SMOOTHING_RADIUS = Some (poly6_value r)"
  by (simp add: poly6_kernel_def poly6_value_def fdiv_def SMOOTHING_RADIUS_def)

lemma hypot_nonneg: "0 \<le> hypot a b"
  by (simp add: hypot_def)

lemma poly6_value_nonneg: "0 \<le> r \<Longrightarrow> 0 \<le> poly6_value r"
proof -
  assume r: "0 \<le> r"
  show ?thesis
  proof (cases "r < SMOOTHING_RADIUS")
    case True
    then have "r ^ 2 \<le> SMOOTHING_RADIUS ^ 2" using r by (simp add: power_mono)
    then have "0 \<le> (SMOOTHING_RADIUS ^ 2 - r ^ 2) ^ 3" by simp
    moreover have "0 \<le> 315 / (64 * pi * SMOOTHING_RADIUS ^ 9)"
      by (simp add: SMOOTHING_RADIUS_def)
    ultimately show ?thesis using True by (simp add: poly6_value_def)
  next
    case False
    then show ?thesis by (simp add: poly6_value_def)
  qed
qed

lemma poly6_value_0: "poly6_value 0 = 7 / (38400 * pi)" "0 < poly6_value 0"
  by (simp_all add: poly6_value_def SMOOTHING_RADIUS_def)

lemma member_le_sum_list_real:
  fixes xs :: "real list"
  assumes "\<forall>x\<in>set xs. 0 \<le> x" and "y \<in> set xs"
  shows "y \<le> sum_list xs"
  using assms
proof (induction xs)
  case Nil
  then show ?case by simp
next
  case (Cons x xs)
  have nn: "0 \<le> sum_list xs" using Cons.prems(1) by (simp add: sum_list_nonneg)
  show ?case
  proof (cases "y = x")
    case True
    then show ?thesis using nn by simp
  next
    case False
    then have "y \<le> sum_list xs" using Cons by simp
    moreover have "0 \<le> x" using Cons.prems(1) by simp
    ultimately show ?thesis by simp
  qed
qed

lemma kernel_sum_pos:
  assumes "SpatialGrid_update SMOOTHING_RADIUS ps = Some g" and "i < length ps"
  shows "0 < kernel_sum g ps (ps ! i)"
proof -
  let ?f = "\<lambda>j. poly6_value (norm2 (vsub (pos (ps ! i)) (pos (ps ! j))))"
  have "?f i = poly6_value 0" by (simp add: norm2_def vsub_def hypot_def)
  moreover have "?f i \<in> set (map ?f (block_ids g (pos (ps ! i))))"
  proof -
    have "?f i \<in> ?f ` set (block_ids g (pos (ps ! i)))"
      using self_in_block_ids [OF assms] by (rule imageI)
    then show ?thesis by (simp only: set_map)
  qed
  moreover have "\<forall>x\<in>set (map ?f (block_ids g (pos (ps ! i)))). 0 \<le> x"
    by (auto simp: norm2_def intro!: poly6_value_nonneg hypot_nonneg)
  ultimately have "poly6_value 0 \<le> kernel_sum g ps (ps ! i)"
    unfolding kernel_sum_def using member_le_sum_list_real by metis
  then show ?thesis using poly6_value_0(2) by linarith
qed

section \<open>The sign of the pressure force\<close>



















section \<open>The physics pass of combined.py\<close>

lemma pos_with_density: "pos (with_density g ps p) = pos p" "vel (with_density g ps p) = vel p"
  by (simp_all add: with_density_def)

lemma density_pass_map:
  assumes g: "SpatialGrid_update SMOOTHING_RADIUS ps = Some g"
  shows "density_pass g ps = Some (map (with_density g ps) ps)"
  unfolding density_pass_def
proof (rule for_loop_indexed_map)
  fix i qs
  assume i: "i < length ps" and qs: "qs = map (with_density g ps) (take i ps) @ drop i ps"
  have len: "length qs = length ps" using i by (simp add: qs)
  have qi: "qs ! i = ps ! i" using i by (simp add: qs nth_append)
  have posq: "pos (qs ! j) = pos (ps ! j)" if "j < length ps" for j
    using that i by (simp add: qs nth_append pos_with_density)
  let ?p = "ps ! i"
  let ?v = "\<lambda>j. poly6_value (norm2 (vsub (pos ?p) (pos (ps ! j))))"
  have inner: "for_loop (block_ids g (pos ?p))
            (\<lambda>j d. do {
               neighbor \<leftarrow> lookup qs j;
               k \<leftarrow> poly6_kernel (norm2 (vsub (pos ?p) (pos neighbor))) SMOOTHING_RADIUS;
               Some (d + k) })
            0 = Some (0 + sum_list (map ?v (block_ids g (pos ?p))))"
  proof (rule for_loop_sum)
    fix j d
    assume "j \<in> set (block_ids g (pos ?p))"
    then have j: "j < length ps" by (rule block_ids_bound [OF g])
    then show "do {
               neighbor \<leftarrow> lookup qs j;
               k \<leftarrow> poly6_kernel (norm2 (vsub (pos ?p) (pos neighbor))) SMOOTHING_RADIUS;
               Some (d + k) } = Some (d + ?v j)"
      by (simp add: lookup_Some len posq poly6_kernel_value)
  qed
  show "density_step g i qs = Some (qs[i := with_density g ps (ps ! i)])"
    unfolding density_step_def
    using i by (simp add: lookup_Some len qi get_neighbors_block_ids inner
        with_density_def kernel_sum_def)
qed

lemma pair_force_total:
  assumes "density neighbor \<noteq> 0"
  shows "pair_force p neighbor f \<noteq> None"
  using assms
  by (simp add: pair_force_def Let_def vdiv_def fdiv_def spiky_gradient_def
      viscosity_laplacian_def SMOOTHING_RADIUS_def del: not_None_eq split_paired_Ex)

lemma force_step_total:
  assumes bound: "\<And>q j. j \<in> set (block_ids g q) \<Longrightarrow> j < length ps"
    and i: "i < length ps"
    and inv: "same_but_acc qs ps"
    and dens: "\<forall>j<length ps. density (ps ! j) \<noteq> 0"
  shows "\<exists>qs'. force_step g i qs = Some qs' \<and> same_but_acc qs' ps"
proof -
  have len: "length qs = length ps" using inv by (simp add: same_but_acc_def)
  have dq: "density (qs ! j) \<noteq> 0" if "j < length ps" for j
    using that inv dens by (simp add: same_but_acc_def)
  let ?p = "qs ! i"
  have "\<exists>forces. for_loop (block_ids g (pos ?p))
            (\<lambda>j forces. do {
               neighbor \<leftarrow> lookup qs j;
               if j = i then Some forces else pair_force ?p neighbor forces })
            ((0, 0), (0, 0)) = Some forces \<and> True"
  proof (rule for_loop_total)
    show True ..
    fix j t
    assume "j \<in> set (block_ids g (pos ?p))"
    then have j: "j < length ps" by (rule bound)
    have "do {
               neighbor \<leftarrow> lookup qs j;
               if j = i then Some t else pair_force ?p neighbor t } \<noteq> None"
      using j pair_force_total [OF dq [OF j], of ?p t]
      by (simp add: lookup_Some len del: not_None_eq split_paired_Ex)
    then show "\<exists>t'. do {
               neighbor \<leftarrow> lookup qs j;
               if j = i then Some t else pair_force ?p neighbor t } = Some t' \<and> True"
      by (simp only: not_None_eq simp_thms)
  qed
  then obtain forces where forces: "for_loop (block_ids g (pos ?p))
            (\<lambda>j forces. do {
               neighbor \<leftarrow> lookup qs j;
               if j = i then Some forces else pair_force ?p neighbor forces })
            ((0, 0), (0, 0)) = Some forces"
    by blast
  define a where "a = (fst (vadd (vadd (vadd (fst forces) (snd forces))
                      (vscale (density ?p) GRAVITY))
                      (vscale (density ?p) (vscale (- (1 / 10)) (vel ?p)))) / density ?p,
                  snd (vadd (vadd (vadd (fst forces) (snd forces))
                      (vscale (density ?p) GRAVITY))
                      (vscale (density ?p) (vscale (- (1 / 10)) (vel ?p)))) / density ?p)"
  have step: "force_step g i qs = Some (qs[i := ?p\<lparr>acc := a\<rparr>])"
    unfolding force_step_def
    using i dq [OF i]
    by (simp add: lookup_Some len get_neighbors_block_ids forces Let_def vdiv_def fdiv_def a_def)
  have "same_but_acc (qs[i := ?p\<lparr>acc := a\<rparr>]) ps"
    using inv i by (auto simp: same_but_acc_def nth_list_update)
  with step show ?thesis by blast
qed

lemma force_pass_total:
  assumes bound: "\<And>q j. j \<in> set (block_ids g q) \<Longrightarrow> j < length ps"
    and dens: "\<forall>j<length ps. density (ps ! j) \<noteq> 0"
  shows "\<exists>ps'. force_pass g ps = Some ps' \<and> same_but_acc ps' ps"
  unfolding force_pass_def
proof (rule for_loop_total)
  show "same_but_acc ps ps" by (simp add: same_but_acc_def)
  fix i t
  assume "i \<in> set [0 ..< length ps]" and "same_but_acc t ps"
  then show "\<exists>t'. force_step g i t = Some t' \<and> same_but_acc t' ps"
    using force_step_total [OF bound _ _ dens] by simp
qed

lemma update_physics_total:
  "\<exists>g ps2. SpatialGrid_update SMOOTHING_RADIUS (particles s) = Some g \<and>
     update_physics s = Some (s\<lparr>particles := ps2\<rparr>) \<and>
     length ps2 = length (particles s) \<and>
     (\<forall>i<length (particles s).
        pos (ps2 ! i) = pos (particles s ! i) \<and> vel (ps2 ! i) = vel (particles s ! i) \<and>
        density (ps2 ! i) = kernel_sum g (particles s) (particles s ! i) \<and>
        pressure (ps2 ! i)
          = PRESSURE_STIFFNESS * (kernel_sum g (particles s) (particles s ! i) - REST_DENSITY))"
proof -
  let ?ps = "particles s"
  from SpatialGrid_update_entries [OF SMOOTHING_RADIUS_nz, of ?ps] obtain g where
    g: "SpatialGrid_update SMOOTHING_RADIUS ?ps = Some g"
    by blast
  let ?ps1 = "map (with_density g ?ps) ?ps"
  have d: "density_pass g ?ps = Some ?ps1" by (rule density_pass_map [OF g])
  have bound: "j < length ?ps1" if "j \<in> set (block_ids g q)" for q j
    using block_ids_bound [OF g that] by simp
  have dens: "\<forall>j<length ?ps1. density (?ps1 ! j) \<noteq> 0"
  proof (intro allI impI)
    fix j
    assume "j < length ?ps1"
    then have j: "j < length ?ps" by simp
    have "0 < kernel_sum g ?ps (?ps ! j)" by (rule kernel_sum_pos [OF g j])
    then show "density (?ps1 ! j) \<noteq> 0" using j by (simp add: with_density_def)
  qed
  have "\<exists>ps'. force_pass g ?ps1 = Some ps' \<and> same_but_acc ps' ?ps1"
  proof (rule force_pass_total)
    show "j < length ?ps1" if "j \<in> set (block_ids g q)" for q j
      using that by (rule bound)
    show "\<forall>j<length ?ps1. density (?ps1 ! j) \<noteq> 0" by (rule dens)
  qed
  then obtain ps2 where
    f: "force_pass g ?ps1 = Some ps2" and inv: "same_but_acc ps2 ?ps1"
    by blast
  have up: "update_physics s = Some (s\<lparr>particles := ps2\<rparr>)"
    unfolding update_physics_def by (simp only: g d f bind.bind_lunit)
  have len: "length ps2 = length ?ps" using inv by (simp add: same_but_acc_def)
  have fields: "pos (ps2 ! i) = pos (?ps ! i) \<and> vel (ps2 ! i) = vel (?ps ! i) \<and>
        density (ps2 ! i) = kernel_sum g ?ps (?ps ! i) \<and>
        pressure (ps2 ! i) = PRESSURE_STIFFNESS * (kernel_sum g ?ps (?ps ! i) - REST_DENSITY)"
    if "i < length ?ps" for i
    using inv that by (simp add: same_but_acc_def with_density_def)
  show ?thesis using g up len fields by blast
qed

section \<open>The neighbour search of main-R1.py\<close>

lemma sep_sym: "sep ps i j = sep ps j i"
proof -
  have "(a - b) * (a - b) = (b - a) * (b - a)" for a b :: real by (simp add: algebra_simps)
  then show ?thesis by (simp add: sep_def hypot_def)
qed

lemma fold_pairs:
  "fold (\<lambda>i. fold (f i) (js i)) is s
   = fold (\<lambda>ij. f (fst ij) (snd ij)) (concat (map (\<lambda>i. map (Pair i) (js i)) is)) s"
proof (induction "is" arbitrary: s)
  case Nil
  then show ?case by simp
next
  case (Cons i "is")
  have "fold (\<lambda>ij. f (fst ij) (snd ij)) (map (Pair i) (js i)) s = fold (f i) (js i) s"
    by (simp add: fold_map comp_def)
  then show ?case using Cons by simp
qed

lemma find_neighbors_fold:
  "find_neighbors ps h
   = fold (add_pair ps h) (concat (map (\<lambda>i. map (Pair i) [Suc i ..< length ps]) [0 ..< length ps]))
       (replicate (length ps) [])"
proof -
  have "find_neighbors ps h
    = fold (\<lambda>i. fold (\<lambda>j. add_pair ps h (i, j)) [Suc i ..< length ps]) [0 ..< length ps]
        (replicate (length ps) [])"
  proof -
    have e: "(\<lambda>j neighbors.
                  let dx = p_x (ps ! j) - p_x (ps ! i);
                      dy = p_y (ps ! j) - p_y (ps ! i);
                      r = hypot dx dy
                  in if r < h
                     then let n1 = neighbors[i := neighbors ! i @ [(j, r)]]
                          in n1[j := n1 ! j @ [(i, r)]]
                     else neighbors) = (\<lambda>j. add_pair ps h (i, j))" for i
      by (intro ext) (simp add: add_pair_def sep_def Let_def)
    show ?thesis unfolding find_neighbors_def e ..
  qed
  also have "\<dots> = fold (\<lambda>ij. add_pair ps h (fst ij, snd ij))
       (concat (map (\<lambda>i. map (Pair i) [Suc i ..< length ps]) [0 ..< length ps]))
       (replicate (length ps) [])"
    by (rule fold_pairs)
  finally show ?thesis by simp
qed

lemma add_pair_rows:
  assumes "fst ij \<noteq> snd ij" "fst ij < length nb" "snd ij < length nb" "k < length nb"
  shows "length (add_pair ps h ij nb) = length nb"
    and "add_pair ps h ij nb ! k = nb ! k @ pair_entries ps h k ij"
  using assms by (auto simp: add_pair_def pair_entries_def nth_list_update)

lemma fold_add_pair:
  assumes "\<forall>ij\<in>set L. fst ij \<noteq> snd ij \<and> fst ij < length nb \<and> snd ij < length nb"
  shows "length (fold (add_pair ps h) L nb) = length nb \<and>
         (\<forall>k<length nb. fold (add_pair ps h) L nb ! k = nb ! k @ concat (map (pair_entries ps h k) L))"
  using assms
proof (induction L arbitrary: nb)
  case Nil
  then show ?case by simp
next
  case (Cons ij L)
  let ?nb1 = "add_pair ps h ij nb"
  have ij: "fst ij \<noteq> snd ij" "fst ij < length nb" "snd ij < length nb"
    using Cons.prems by simp_all
  have len1: "length ?nb1 = length nb"
    by (simp add: add_pair_def)
  have "\<forall>ij\<in>set L. fst ij \<noteq> snd ij \<and> fst ij < length ?nb1 \<and> snd ij < length ?nb1"
    using Cons.prems by (simp add: len1)
  from Cons.IH [OF this]
  have IH: "length (fold (add_pair ps h) L ?nb1) = length ?nb1"
    "\<And>k. k < length ?nb1 \<Longrightarrow>
       fold (add_pair ps h) L ?nb1 ! k = ?nb1 ! k @ concat (map (pair_entries ps h k) L)"
    by simp_all
  show ?case
  proof (intro conjI allI impI)
    show "length (fold (add_pair ps h) (ij # L) nb) = length nb"
      using IH(1) by (simp add: len1)
    fix k
    assume k: "k < length nb"
    have "fold (add_pair ps h) (ij # L) nb ! k = ?nb1 ! k @ concat (map (pair_entries ps h k) L)"
      using IH(2) [of k] k by (simp add: len1)
    also have "?nb1 ! k = nb ! k @ pair_entries ps h k ij"
      by (rule add_pair_rows(2) [OF ij k])
    finally show "fold (add_pair ps h) (ij # L) nb ! k
        = nb ! k @ concat (map (pair_entries ps h k) (ij # L))"
      by simp
  qed
qed

lemma concat_map_if: "concat (map (\<lambda>j. if P j then [g j] else []) xs) = map g (filter P xs)"
  by (induction xs) simp_all

lemma filter_eq_upt:
  "filter (\<lambda>j. j = k \<and> Q j) [a ..< b] = (if a \<le> k \<and> k < b \<and> Q k then [k] else [])"
  by (induction b) auto

lemma concat_map_concat:
  "concat (map c (concat (map F xs))) = concat (map (\<lambda>i. concat (map c (F i))) xs)"
  by (induction xs) simp_all

lemma row_entries:
  assumes k: "k < n" and i: "i < n"
  shows "concat (map (pair_entries ps h k) (map (Pair i) [Suc i ..< n]))
    = (if i < k then (if sep ps i k < h then [(i, sep ps i k)] else [])
       else if i = k then map (\<lambda>j. (j, sep ps k j)) (filter (\<lambda>j. sep ps k j < h) [Suc k ..< n])
       else [])"
proof -
  consider "i < k" | "i = k" | "k < i" by linarith
  then show ?thesis
  proof cases
    case 1
    have fe: "(\<lambda>j. pair_entries ps h k (i, j))
        = (\<lambda>j. if j = k \<and> sep ps i j < h then [(i, sep ps i j)] else [])"
      using 1 by (intro ext) (auto simp: pair_entries_def)
    have "concat (map (pair_entries ps h k) (map (Pair i) [Suc i ..< n]))
        = concat (map (\<lambda>j. pair_entries ps h k (i, j)) [Suc i ..< n])"
      by (simp add: comp_def)
    also have "\<dots>
        = concat (map (\<lambda>j. if j = k \<and> sep ps i j < h then [(i, sep ps i j)] else []) [Suc i ..< n])"
      unfolding fe ..
    also have "\<dots> = map (\<lambda>j. (i, sep ps i j)) (filter (\<lambda>j. j = k \<and> sep ps i j < h) [Suc i ..< n])"
      by (rule concat_map_if)
    also have "\<dots> = (if sep ps i k < h then [(i, sep ps i k)] else [])"
      using 1 k by (simp add: filter_eq_upt)
    finally show ?thesis using 1 by simp
  next
    case 2
    have fe: "(\<lambda>j. pair_entries ps h k (k, j))
        = (\<lambda>j. if sep ps k j < h then [(j, sep ps k j)] else [])"
      by (intro ext) (simp add: pair_entries_def)
    have "concat (map (pair_entries ps h k) (map (Pair i) [Suc i ..< n]))
        = concat (map (\<lambda>j. pair_entries ps h k (k, j)) [Suc k ..< n])"
      using 2 by (simp add: comp_def)
    also have "\<dots>
        = concat (map (\<lambda>j. if sep ps k j < h then [(j, sep ps k j)] else []) [Suc k ..< n])"
      unfolding fe ..
    also have "\<dots> = map (\<lambda>j. (j, sep ps k j)) (filter (\<lambda>j. sep ps k j < h) [Suc k ..< n])"
      by (rule concat_map_if)
    finally show ?thesis using 2 by simp
  next
    case 3
    have "pair_entries ps h k (i, j) = []" if "j \<in> set [Suc i ..< n]" for j
      using that 3 by (simp add: pair_entries_def)
    then have "concat (map (pair_entries ps h k) (map (Pair i) [Suc i ..< n])) = []"
      by (simp add: comp_def)
    then show ?thesis using 3 by simp
  qed
qed

lemma all_entries:
  assumes k: "k < length ps"
  shows "concat (map (pair_entries ps h k)
           (concat (map (\<lambda>i. map (Pair i) [Suc i ..< length ps]) [0 ..< length ps])))
         = close_neighbors ps h k"
proof -
  let ?n = "length ps"
  let ?G = "\<lambda>i. concat (map (pair_entries ps h k) (map (Pair i) [Suc i ..< ?n]))"
  have split: "[0 ..< ?n] = [0 ..< k] @ [k] @ [Suc k ..< ?n]"
  proof -
    have "[0 ..< k + (?n - k)] = [0 ..< k] @ [k ..< k + (?n - k)]"
      by (rule upt_add_eq_append) simp
    then have "[0 ..< ?n] = [0 ..< k] @ [k ..< ?n]" using k by simp
    moreover have "[k ..< ?n] = k # [Suc k ..< ?n]" using k by (rule upt_conv_Cons)
    ultimately show ?thesis by simp
  qed
  have low: "concat (map ?G [0 ..< k])
      = map (\<lambda>j. (j, sep ps k j)) (filter (\<lambda>j. j \<noteq> k \<and> sep ps k j < h) [0 ..< k])"
  proof -
    have "map ?G [0 ..< k]
        = map (\<lambda>i. if sep ps k i < h then [(i, sep ps k i)] else []) [0 ..< k]"
    proof (rule map_cong [OF refl])
      fix i
      assume "i \<in> set [0 ..< k]"
      then have i: "i < k" "i < ?n" using k by simp_all
      show "?G i = (if sep ps k i < h then [(i, sep ps k i)] else [])"
        unfolding row_entries [OF k i(2)] using i(1) by (simp add: sep_sym [of ps i k])
    qed
    then have "concat (map ?G [0 ..< k])
        = concat (map (\<lambda>i. if sep ps k i < h then [(i, sep ps k i)] else []) [0 ..< k])"
      by (rule arg_cong)
    also have "\<dots> = map (\<lambda>j. (j, sep ps k j)) (filter (\<lambda>j. sep ps k j < h) [0 ..< k])"
      by (rule concat_map_if)
    also have "filter (\<lambda>j. sep ps k j < h) [0 ..< k]
        = filter (\<lambda>j. j \<noteq> k \<and> sep ps k j < h) [0 ..< k]"
      by (rule filter_cong) auto
    finally show ?thesis .
  qed
  have mid: "?G k = map (\<lambda>j. (j, sep ps k j)) (filter (\<lambda>j. j \<noteq> k \<and> sep ps k j < h) [Suc k ..< ?n])"
  proof -
    have "filter (\<lambda>j. sep ps k j < h) [Suc k ..< ?n]
        = filter (\<lambda>j. j \<noteq> k \<and> sep ps k j < h) [Suc k ..< ?n]"
      by (rule filter_cong) auto
    then show ?thesis unfolding row_entries [OF k k] by simp
  qed
  have high: "concat (map ?G [Suc k ..< ?n]) = []"
  proof -
    have "?G i = []" if "i \<in> set [Suc k ..< ?n]" for i
    proof -
      from that have i: "i < ?n" "k < i" by simp_all
      show ?thesis unfolding row_entries [OF k i(1)] using i(2) by simp
    qed
    then have "map ?G [Suc k ..< ?n] = map (\<lambda>i. []) [Suc k ..< ?n]"
      by (intro map_cong refl)
    then have "concat (map ?G [Suc k ..< ?n]) = concat (map (\<lambda>i. []) [Suc k ..< ?n])"
      by (rule arg_cong)
    then show ?thesis by simp
  qed
  have "concat (map (pair_entries ps h k)
           (concat (map (\<lambda>i. map (Pair i) [Suc i ..< ?n]) [0 ..< ?n])))
        = concat (map ?G [0 ..< ?n])"
    by (rule concat_map_concat)
  also have "\<dots> = concat (map ?G [0 ..< k]) @ ?G k @ concat (map ?G [Suc k ..< ?n])"
    by (subst split) simp
  also have "\<dots> = map (\<lambda>j. (j, sep ps k j))
       (filter (\<lambda>j. j \<noteq> k \<and> sep ps k j < h) ([0 ..< k] @ [k] @ [Suc k ..< ?n]))"
    unfolding low mid high by simp
  also have "\<dots> = close_neighbors ps h k"
    unfolding close_neighbors_def split [symmetric] ..
  finally show ?thesis .
qed

lemma find_neighbors_rows:
  "length (find_neighbors ps h) = length ps \<and>
   (\<forall>k<length ps. find_neighbors ps h ! k = close_neighbors ps h k)"
proof -
  let ?L = "concat (map (\<lambda>i. map (Pair i) [Suc i ..< length ps]) [0 ..< length ps])"
  let ?nb = "replicate (length ps) [] :: (nat \<times> real) list list"
  have wf: "\<forall>ij\<in>set ?L. fst ij \<noteq> snd ij \<and> fst ij < length ?nb \<and> snd ij < length ?nb"
  proof
    fix ij
    assume "ij \<in> set ?L"
    then obtain i where i: "i < length ps" and "ij \<in> set (map (Pair i) [Suc i ..< length ps])"
      unfolding set_concat set_map by fastforce
    then obtain j where "ij = (i, j)" "Suc i \<le> j" "j < length ps"
      unfolding set_map by fastforce
    with i show "fst ij \<noteq> snd ij \<and> fst ij < length ?nb \<and> snd ij < length ?nb"
      by simp
  qed
  from fold_add_pair [OF wf, of ps h]
  have a: "length (fold (add_pair ps h) ?L ?nb) = length ?nb"
    and b: "\<And>k. k < length ?nb \<Longrightarrow>
       fold (add_pair ps h) ?L ?nb ! k = ?nb ! k @ concat (map (pair_entries ps h k) ?L)"
    by simp_all
  show ?thesis
  proof (intro conjI allI impI)
    show "length (find_neighbors ps h) = length ps"
      unfolding find_neighbors_fold using a by simp
    fix k
    assume k: "k < length ps"
    have "find_neighbors ps h ! k = ?nb ! k @ concat (map (pair_entries ps h k) ?L)"
      unfolding find_neighbors_fold using b [of k] k by simp
    also have "\<dots> = concat (map (pair_entries ps h k) ?L)" using k by simp
    also have "\<dots> = close_neighbors ps h k" by (rule all_entries [OF k])
    finally show "find_neighbors ps h ! k = close_neighbors ps h k" .
  qed
qed

section \<open>The density and force passes of main-R1.py\<close>

lemma for_loop_indexed:
  assumes step: "\<And>i qs. i < length ps \<Longrightarrow> length qs = length ps \<Longrightarrow>
             (\<forall>j<i. qs ! j = F j (ps ! j)) \<Longrightarrow> (\<forall>j. i \<le> j \<and> j < length ps \<longrightarrow> qs ! j = ps ! j) \<Longrightarrow>
             step i qs = Some (qs[i := F i (ps ! i)])"
  shows "for_loop [0 ..< length ps] step ps = Some (map (\<lambda>i. F i (ps ! i)) [0 ..< length ps])"
proof -
  have "m \<le> length ps \<Longrightarrow>
      \<exists>qs. for_loop [0 ..< m] step ps = Some qs \<and> length qs = length ps \<and>
        (\<forall>j<m. qs ! j = F j (ps ! j)) \<and> (\<forall>j. m \<le> j \<and> j < length ps \<longrightarrow> qs ! j = ps ! j)" for m
  proof (induction m)
    case 0
    then show ?case by simp
  next
    case (Suc m)
    then have m: "m < length ps" by simp
    from Suc.IH m obtain qs where
      qs: "for_loop [0 ..< m] step ps = Some qs" "length qs = length ps"
        "\<forall>j<m. qs ! j = F j (ps ! j)" "\<forall>j. m \<le> j \<and> j < length ps \<longrightarrow> qs ! j = ps ! j"
      by auto
    have "for_loop [0 ..< Suc m] step ps = step m qs"
      by (simp add: for_loop_append for_loop_single qs(1) del: for_loop.simps)
    also have "\<dots> = Some (qs[m := F m (ps ! m)])" by (rule step [OF m qs(2) qs(3) qs(4)])
    finally have run: "for_loop [0 ..< Suc m] step ps = Some (qs[m := F m (ps ! m)])" .
    have a: "\<forall>j<Suc m. qs[m := F m (ps ! m)] ! j = F j (ps ! j)"
      using qs(2) qs(3) m by (auto simp: nth_list_update less_Suc_eq)
    have b: "\<forall>j. Suc m \<le> j \<and> j < length ps \<longrightarrow> qs[m := F m (ps ! m)] ! j = ps ! j"
      using qs(2) qs(4) by (auto simp: nth_list_update)
    show ?case using run a b qs(2) by simp
  qed
  from this [of "length ps"] obtain qs where
    qs: "for_loop [0 ..< length ps] step ps = Some qs" "length qs = length ps"
      "\<forall>j<length ps. qs ! j = F j (ps ! j)"
    by auto
  have "qs = map (\<lambda>i. F i (ps ! i)) [0 ..< length ps]"
    by (rule nth_equalityI) (simp_all add: qs(2) qs(3))
  with qs(1) show ?thesis by simp
qed

lemma sph_kernel_Some: "h \<noteq> 0 \<Longrightarrow> sph_kernel r h = Some (sph_kernel_value r h)"
  by (simp add: sph_kernel_def sph_kernel_value_def fdiv_def)

lemma density_step_R1_value:
  assumes h: "h \<noteq> 0" and i: "i < length qs" and n: "length neighbors = length qs"
    and wf: "\<forall>jr\<in>set (neighbors ! i). fst jr < length qs"
  shows "density_step_R1 neighbors h i qs
     = Some (qs[i := with_density_R1 (neighbor_mass_sum qs h (neighbors ! i)) (qs ! i)])"
proof -
  have inner: "for_loop (neighbors ! i)
            (\<lambda>(j, r) d. do {
               pj \<leftarrow> lookup qs j;
               k \<leftarrow> sph_kernel r h;
               Some (d + p_mass pj * k) })
            0 = Some (0 + sum_list (map (\<lambda>jr. p_mass (qs ! fst jr) * sph_kernel_value (snd jr) h)
                                     (neighbors ! i)))"
  proof (rule for_loop_sum)
    fix x :: "nat \<times> real" and d :: real
    assume "x \<in> set (neighbors ! i)"
    then have "fst x < length qs" using wf by simp
    then show "(case x of (j, r) \<Rightarrow> \<lambda>d. do {
               pj \<leftarrow> lookup qs j;
               k \<leftarrow> sph_kernel r h;
               Some (d + p_mass pj * k) }) d
        = Some (d + p_mass (qs ! fst x) * sph_kernel_value (snd x) h)"
      by (simp add: split_beta lookup_Some sph_kernel_Some [OF h])
  qed
  show ?thesis
    unfolding density_step_R1_def
    using i n by (simp add: lookup_Some inner neighbor_mass_sum_def with_density_R1_def Let_def)
qed

lemma mass_with_density_R1: "p_mass (with_density_R1 d p) = p_mass p"
  by (simp add: with_density_R1_def)

lemma compute_density_pressure_value:
  assumes h: "h \<noteq> 0" and n: "length neighbors = length ps"
    and wf: "\<forall>i<length ps. \<forall>jr\<in>set (neighbors ! i). fst jr < length ps"
  shows "compute_density_pressure ps neighbors h
     = Some (map (\<lambda>i. with_density_R1 (neighbor_mass_sum ps h (neighbors ! i)) (ps ! i))
               [0 ..< length ps])"
  unfolding compute_density_pressure_def
proof (rule for_loop_indexed)
  fix i qs
  assume i: "i < length ps" and len: "length qs = length ps"
    and lo: "\<forall>j<i. qs ! j = with_density_R1 (neighbor_mass_sum ps h (neighbors ! j)) (ps ! j)"
    and hi: "\<forall>j. i \<le> j \<and> j < length ps \<longrightarrow> qs ! j = ps ! j"
  have mass: "p_mass (qs ! j) = p_mass (ps ! j)" if "j < length ps" for j
  proof (cases "j < i")
    case True
    then show ?thesis using lo by (simp add: mass_with_density_R1)
  next
    case False
    then show ?thesis using hi that by simp
  qed
  have "map (\<lambda>jr. p_mass (qs ! fst jr) * sph_kernel_value (snd jr) h) (neighbors ! i)
      = map (\<lambda>jr. p_mass (ps ! fst jr) * sph_kernel_value (snd jr) h) (neighbors ! i)"
  proof (rule map_cong [OF refl])
    fix jr
    assume "jr \<in> set (neighbors ! i)"
    then have "fst jr < length ps" using wf i by simp
    then show "p_mass (qs ! fst jr) * sph_kernel_value (snd jr) h
        = p_mass (ps ! fst jr) * sph_kernel_value (snd jr) h"
      by (simp add: mass)
  qed
  then have sum: "neighbor_mass_sum qs h (neighbors ! i) = neighbor_mass_sum ps h (neighbors ! i)"
    unfolding neighbor_mass_sum_def by (rule arg_cong)
  have qi: "qs ! i = ps ! i" using hi i by simp
  have "density_step_R1 neighbors h i qs
     = Some (qs[i := with_density_R1 (neighbor_mass_sum qs h (neighbors ! i)) (qs ! i)])"
  proof (rule density_step_R1_value [OF h])
    show "i < length qs" using i len by simp
    show "length neighbors = length qs" using n len by simp
    show "\<forall>jr\<in>set (neighbors ! i). fst jr < length qs" using wf i len by simp
  qed
  then show "density_step_R1 neighbors h i qs
     = Some (qs[i := with_density_R1 (neighbor_mass_sum ps h (neighbors ! i)) (ps ! i)])"
    unfolding sum qi .
qed

lemma close_neighbors_bound: "jr \<in> set (close_neighbors ps h k) \<Longrightarrow> fst jr < length ps"
  by (auto simp: close_neighbors_def)

lemma find_neighbors_wf:
  "length (find_neighbors ps h) = length ps"
  "i < length ps \<Longrightarrow> jr \<in> set (find_neighbors ps h ! i) \<Longrightarrow> fst jr < length ps"
  using find_neighbors_rows [of ps h] close_neighbors_bound [of jr ps h i] by simp_all

lemma close_neighbors_nonzero:
  assumes "jr \<in> set (close_neighbors ps h k)"
  shows "0 < h"
proof -
  from assms obtain j where "sep ps k j < h" by (auto simp: close_neighbors_def)
  moreover have "0 \<le> sep ps k j" by (simp add: sep_def hypot_nonneg)
  ultimately show ?thesis by simp
qed

lemma EPSILON_pos: "0 < EPSILON"
  by (simp add: EPSILON_def)

lemma sph_viscosity_kernel_total:
  assumes "h \<noteq> 0"
  shows "\<exists>v. sph_viscosity_kernel r h = Some v"
proof (cases "r < EPSILON")
  case True
  then show ?thesis by (simp add: sph_viscosity_kernel_def)
next
  case False
  then have "0 < r + EPSILON" using EPSILON_pos by linarith
  then have "2 * (r + EPSILON) \<noteq> 0" by simp
  then show ?thesis using False assms
    by (simp add: sph_viscosity_kernel_def fdiv_def)
qed

lemma sph_kernel_derivative_total:
  assumes "h \<noteq> 0"
  shows "\<exists>v. sph_kernel_derivative r h = Some v"
  using assms by (simp add: sph_kernel_derivative_def fdiv_def)

lemma pair_force_R1_total:
  assumes h: "h \<noteq> 0"
  shows "\<exists>f'. pair_force_R1 p pj r h f = Some f'"
proof -
  have m: "max r EPSILON \<noteq> 0" using EPSILON_pos by (simp add: max_def)
  from sph_viscosity_kernel_total [OF h, of r] obtain vk where
    vk: "sph_viscosity_kernel r h = Some vk" by blast
  from sph_kernel_derivative_total [OF h, of r] obtain kd where
    kd: "sph_kernel_derivative r h = Some kd" by blast
  show ?thesis
    unfolding pair_force_R1_def Let_def
    by (simp add: fdiv_Some [OF m] vk kd sph_kernel_Some [OF h])
qed

lemma apply_force_value:
  "p_mass p \<noteq> 0 \<Longrightarrow>
     apply_force fx fy p = Some (p\<lparr>p_ax := p_ax p + fx / p_mass p, p_ay := p_ay p + fy / p_mass p\<rparr>)"
  by (simp add: apply_force_def fdiv_def)

lemma force_step_R1_total:
  assumes h: "h \<noteq> 0" and i: "i < length ps" and n: "length neighbors = length ps"
    and wf: "\<forall>jr\<in>set (neighbors ! i). fst jr < length ps"
    and mass: "\<forall>j<length ps. p_mass (ps ! j) \<noteq> 0"
    and inv: "same_but_acc_R1 qs ps"
  shows "\<exists>qs'. force_step_R1 neighbors h i qs = Some qs' \<and> same_but_acc_R1 qs' ps"
proof -
  have len: "length qs = length ps" using inv by (simp add: same_but_acc_R1_def)
  from inv i obtain ax ay where qi: "qs ! i = (ps ! i)\<lparr>p_ax := ax, p_ay := ay\<rparr>"
    unfolding same_but_acc_R1_def by blast
  have mi: "p_mass (qs ! i) \<noteq> 0" using mass i by (simp add: qi)
  let ?p = "qs ! i"
  have "\<exists>f. for_loop (neighbors ! i)
            (\<lambda>(j, r) f. do { pj \<leftarrow> lookup qs j; pair_force_R1 ?p pj r h f })
            zero_forces = Some f \<and> True"
  proof (rule for_loop_total)
    show True ..
    fix x :: "nat \<times> real" and t
    assume "x \<in> set (neighbors ! i)"
    then have j: "fst x < length qs" using wf len by simp
    from pair_force_R1_total [OF h, of ?p "qs ! fst x" "snd x" t] obtain t' where
      "pair_force_R1 ?p (qs ! fst x) (snd x) h t = Some t'" by blast
    then have "(case x of (j, r) \<Rightarrow> \<lambda>f. do { pj \<leftarrow> lookup qs j; pair_force_R1 ?p pj r h f }) t
        = Some t'"
      using j by (simp add: split_beta lookup_Some)
    then show "\<exists>t'. (case x of (j, r) \<Rightarrow> \<lambda>f. do { pj \<leftarrow> lookup qs j; pair_force_R1 ?p pj r h f }) t
        = Some t' \<and> True"
      by blast
  qed
  then obtain f where f: "for_loop (neighbors ! i)
            (\<lambda>(j, r) f. do { pj \<leftarrow> lookup qs j; pair_force_R1 ?p pj r h f })
            zero_forces = Some f"
    by blast
  define ax' where "ax' = p_ax ?p + pressure_force_x f / p_mass ?p
      + viscosity_force_x f / p_mass ?p + tension_force_x f / p_mass ?p"
  define ay' where "ay' = p_ay ?p + pressure_force_y f / p_mass ?p
      + viscosity_force_y f / p_mass ?p + tension_force_y f / p_mass ?p"
  have step: "force_step_R1 neighbors h i qs = Some (qs[i := ?p\<lparr>p_ax := ax', p_ay := ay'\<rparr>])"
    unfolding force_step_R1_def
    using i len n mi
    by (simp add: lookup_Some f apply_force_value ax'_def ay'_def)
  have "same_but_acc_R1 (qs[i := ?p\<lparr>p_ax := ax', p_ay := ay'\<rparr>]) ps"
    unfolding same_but_acc_R1_def
  proof (intro conjI allI impI)
    show "length (qs[i := ?p\<lparr>p_ax := ax', p_ay := ay'\<rparr>]) = length ps" using len by simp
    fix j
    assume j: "j < length ps"
    show "\<exists>ax ay. qs[i := ?p\<lparr>p_ax := ax', p_ay := ay'\<rparr>] ! j = (ps ! j)\<lparr>p_ax := ax, p_ay := ay\<rparr>"
    proof (cases "j = i")
      case True
      have "qs[i := ?p\<lparr>p_ax := ax', p_ay := ay'\<rparr>] ! j = (ps ! j)\<lparr>p_ax := ax', p_ay := ay'\<rparr>"
        using True i len by (simp add: qi)
      then show ?thesis by blast
    next
      case False
      then have "qs[i := ?p\<lparr>p_ax := ax', p_ay := ay'\<rparr>] ! j = qs ! j" by simp
      then show ?thesis using inv j unfolding same_but_acc_R1_def by simp
    qed
  qed
  with step show ?thesis by blast
qed

lemma compute_forces_total:
  assumes h: "h \<noteq> 0" and n: "length neighbors = length ps"
    and wf: "\<forall>i<length ps. \<forall>jr\<in>set (neighbors ! i). fst jr < length ps"
    and mass: "\<forall>j<length ps. p_mass (ps ! j) \<noteq> 0"
  shows "\<exists>ps'. compute_forces ps neighbors h = Some ps' \<and> same_but_acc_R1 ps' ps"
  unfolding compute_forces_def
proof (rule for_loop_total)
  show "same_but_acc_R1 ps ps"
    unfolding same_but_acc_R1_def
  proof (intro conjI allI impI)
    show "length ps = length ps" ..
    fix j
    have "ps ! j = (ps ! j)\<lparr>p_ax := p_ax (ps ! j), p_ay := p_ay (ps ! j)\<rparr>" by simp
    then show "\<exists>ax ay. ps ! j = (ps ! j)\<lparr>p_ax := ax, p_ay := ay\<rparr>" by blast
  qed
  fix i t
  assume "i \<in> set [0 ..< length ps]" and inv: "same_but_acc_R1 t ps"
  then have i: "i < length ps" by simp
  show "\<exists>t'. force_step_R1 neighbors h i t = Some t' \<and> same_but_acc_R1 t' ps"
  proof (rule force_step_R1_total [OF h i n _ mass inv])
    show "\<forall>jr\<in>set (neighbors ! i). fst jr < length ps" using wf i by simp
  qed
qed

end
